theory Spec2Isabelle
  imports Main "HOL-Library.Word"
begin

section \<open>Shared types of the storage interface\<close>

text \<open>
  Both backends (\<^verbatim>\<open>storage_interface.c\<close>, the in-RAM table, and
  \<^verbatim>\<open>storage_interface_zfs.c\<close>, the layer over the ZMS flash log) implement the same
  four functions. A \<^verbatim>\<open>uint64_t\<close> is a \<open>64 word\<close>, a \<^verbatim>\<open>uint32_t\<close> a \<open>32 word\<close>
  (addition and subtraction wrap), a byte an \<open>8 word\<close>. A pointer argument is an
  \<open>option\<close>: \<open>None\<close> is \<^verbatim>\<open>NULL\<close>, \<open>Some bs\<close> is the memory the pointer addresses.
  Functions that write through a pointer return the memory as it is after the call.
\<close>

type_synonym byte = "8 word"

datatype psa_status_t =
    PSA_SUCCESS
  | PSA_ERROR_INVALID_ARGUMENT
  | PSA_ERROR_DOES_NOT_EXIST
  | PSA_ERROR_INSUFFICIENT_STORAGE
  | PSA_ERROR_IO_ERROR

definition STORAGE_MAX_ENTRIES :: nat where
  "STORAGE_MAX_ENTRIES = 8"

definition STORAGE_MAX_ITEM_SIZE :: nat where
  "STORAGE_MAX_ITEM_SIZE = 1024"

text \<open>
  \<^verbatim>\<open>memcpy(dst, src, n)\<close> and \<^verbatim>\<open>memset(dst + k, v, n)\<close> on byte arrays held as lists.
  Both are used by the source only where \<open>src\<close> holds at least \<open>n\<close> bytes and the
  destination at least \<open>n\<close> (respectively \<open>k + n\<close>) bytes.
\<close>

definition memcpy :: "byte list \<Rightarrow> byte list \<Rightarrow> nat \<Rightarrow> byte list" where
  "memcpy dst src n = take n src @ drop n dst"

definition memset_at :: "byte list \<Rightarrow> nat \<Rightarrow> byte \<Rightarrow> nat \<Rightarrow> byte list" where
  "memset_at dst k v n = take k dst @ replicate n v @ drop (k + n) dst"

section \<open>The Volatile Table Store (storage\_interface.c)\<close>

record storage_entry_t =
  used :: bool
  uid :: "64 word"
  size_e :: "32 word"
  data :: "byte list"

type_synonym storage_table_t = "storage_entry_t list"

text \<open>The table as the C start-up code leaves it (\<^verbatim>\<open>= {0}\<close>), and after \<^verbatim>\<open>storage_init\<close>.\<close>

definition storage_table_zero :: storage_table_t where
  "storage_table_zero =
     replicate STORAGE_MAX_ENTRIES
       \<lparr>used = False, uid = 0, size_e = 0, data = replicate STORAGE_MAX_ITEM_SIZE 0\<rparr>"

definition storage_init :: "storage_table_t \<Rightarrow> storage_table_t" where
  "storage_init tbl =
     fold (\<lambda>i t. t[i := \<lparr>used = False, uid = 0, size_e = 0,
                         data = replicate STORAGE_MAX_ITEM_SIZE 0xFF\<rparr>])
          [0..<STORAGE_MAX_ENTRIES] tbl"

text \<open>The two linear searches; \<open>None\<close> is the source's \<open>-1\<close>.\<close>

definition find_entry :: "storage_table_t \<Rightarrow> 64 word \<Rightarrow> nat option" where
  "find_entry tbl obj_uid =
     find (\<lambda>i. used (tbl ! i) \<and> uid (tbl ! i) = obj_uid) [0..<STORAGE_MAX_ENTRIES]"

definition find_free_slot :: "storage_table_t \<Rightarrow> nat option" where
  "find_free_slot tbl = find (\<lambda>i. \<not> used (tbl ! i)) [0..<STORAGE_MAX_ENTRIES]"

definition storage_set ::
  "storage_table_t \<Rightarrow> 64 word \<Rightarrow> 32 word \<Rightarrow> byte list option
     \<Rightarrow> psa_status_t \<times> storage_table_t" where
  "storage_set tbl obj_uid obj_length p_obj =
     (case p_obj of
        None \<Rightarrow> (PSA_ERROR_INVALID_ARGUMENT, tbl)
      | Some src \<Rightarrow>
          if unat obj_length > STORAGE_MAX_ITEM_SIZE
          then (PSA_ERROR_INSUFFICIENT_STORAGE, tbl)
          else
            (case (case find_entry tbl obj_uid of
                     Some i \<Rightarrow> Some i
                   | None \<Rightarrow> find_free_slot tbl) of
               None \<Rightarrow> (PSA_ERROR_INSUFFICIENT_STORAGE, tbl)
             | Some idx \<Rightarrow>
                 let d1 = memcpy (data (tbl ! idx)) src (unat obj_length);
                     d2 = (if unat obj_length < STORAGE_MAX_ITEM_SIZE
                           then memset_at d1 (unat obj_length) 0
                                  (STORAGE_MAX_ITEM_SIZE - unat obj_length)
                           else d1)
                 in (PSA_SUCCESS,
                     tbl[idx := \<lparr>used = True, uid = obj_uid, size_e = obj_length,
                                 data = d2\<rparr>])))"

definition storage_get ::
  "storage_table_t \<Rightarrow> 64 word \<Rightarrow> 32 word \<Rightarrow> 32 word \<Rightarrow> byte list option
     \<Rightarrow> psa_status_t \<times> byte list option" where
  "storage_get tbl obj_uid obj_offset obj_length p_obj =
     (case p_obj of
        None \<Rightarrow> (PSA_ERROR_INVALID_ARGUMENT, None)
      | Some out \<Rightarrow>
          (case find_entry tbl obj_uid of
             None \<Rightarrow> (PSA_ERROR_DOES_NOT_EXIST, Some out)
           | Some idx \<Rightarrow>
               let stored = size_e (tbl ! idx) in
               if obj_offset > stored then (PSA_ERROR_INVALID_ARGUMENT, Some out)
               else
                 let avail = stored - obj_offset;
                     to_copy = (if obj_length > avail then avail else obj_length)
                 in (PSA_SUCCESS,
                     Some (if to_copy > 0
                           then memcpy out (drop (unat obj_offset) (data (tbl ! idx)))
                                  (unat to_copy)
                           else out))))"

definition storage_get_info ::
  "storage_table_t \<Rightarrow> 64 word \<Rightarrow> byte list option \<Rightarrow> 32 word
     \<Rightarrow> psa_status_t \<times> byte list option" where
  "storage_get_info tbl obj_uid p_obj_info obj_info_size =
     (case find_entry tbl obj_uid of
        None \<Rightarrow> (PSA_ERROR_DOES_NOT_EXIST, p_obj_info)
      | Some idx \<Rightarrow>
          let stored_size = size_e (tbl ! idx);
              data_ptr = data (tbl ! idx)
          in (case p_obj_info of
                None \<Rightarrow> (PSA_ERROR_INVALID_ARGUMENT, None)
              | Some out \<Rightarrow>
                  if obj_info_size > stored_size
                  then (PSA_ERROR_INVALID_ARGUMENT, Some out)
                  else (PSA_SUCCESS, Some (memcpy out data_ptr (unat obj_info_size)))))"

definition storage_remove ::
  "storage_table_t \<Rightarrow> 64 word \<Rightarrow> 32 word \<Rightarrow> psa_status_t \<times> storage_table_t" where
  "storage_remove tbl obj_uid obj_size =
     (case find_entry tbl obj_uid of
        None \<Rightarrow> (PSA_ERROR_DOES_NOT_EXIST, tbl)
      | Some idx \<Rightarrow>
          (PSA_SUCCESS,
           tbl[idx := \<lparr>used = False, uid = 0, size_e = 0,
                       data = replicate STORAGE_MAX_ITEM_SIZE 0\<rparr>]))"

section \<open>The Persistent Log Store (storage\_interface\_zfs.c)\<close>

text \<open>
  The ZMS flash log is an external library: its three entry points are parameters of
  the model, over an arbitrary type \<open>'fs\<close> of log states. Each returns the C \<^verbatim>\<open>int\<close>
  result code as a \<open>32 word\<close> (read signed with \<open>sint\<close>; the source's comparisons of
  \<^verbatim>\<open>rc\<close> with a \<^verbatim>\<open>uint32_t\<close> are unsigned, as the usual arithmetic conversions make
  them). \<open>zms_write\<close> receives the bytes to store and returns the new log state;
  \<open>zms_read fs id n\<close> returns the bytes it stored at the start of the caller's
  \<open>n\<close>-byte buffer; \<open>zms_delete\<close> returns the new log state. The id is handed
  over as the 64-bit \<open>obj_uid\<close>; a narrowing to the library's own id type is part of
  the parameter.
\<close>

record 'fs zms_api =
  zms_write :: "'fs \<Rightarrow> 64 word \<Rightarrow> byte list \<Rightarrow> 32 word \<times> 'fs"
  zms_read :: "'fs \<Rightarrow> 64 word \<Rightarrow> nat \<Rightarrow> 32 word \<times> byte list"
  zms_delete :: "'fs \<Rightarrow> 64 word \<Rightarrow> 32 word \<times> 'fs"

text \<open>\<^verbatim>\<open>sizeof(buf)\<close> of the working buffer \<^verbatim>\<open>uint8_t buf[128]\<close> in \<^verbatim>\<open>storage_get\<close>.\<close>

definition BUF_SIZE :: nat where
  "BUF_SIZE = 128"

text \<open>
  A call either returns, or reads the working buffer outside its 128 bytes (undefined
  behaviour in C, kept as a value of its own).
\<close>

datatype 'a outcome = OutOfBounds | Returns 'a

definition storage_set_zfs ::
  "'fs zms_api \<Rightarrow> 'fs \<Rightarrow> 64 word \<Rightarrow> 32 word \<Rightarrow> byte list option
     \<Rightarrow> psa_status_t \<times> 'fs" where
  "storage_set_zfs api fs obj_uid obj_length p_obj =
     (case p_obj of
        None \<Rightarrow> (PSA_ERROR_INVALID_ARGUMENT, fs)
      | Some src \<Rightarrow>
          if unat obj_length > STORAGE_MAX_ITEM_SIZE
          then (PSA_ERROR_INSUFFICIENT_STORAGE, fs)
          else
            (case zms_write api fs obj_uid (take (unat obj_length) src) of
               (rc, fs') \<Rightarrow>
                 if sint rc < 0 then (PSA_ERROR_IO_ERROR, fs')
                 else if rc < obj_length then (PSA_ERROR_IO_ERROR, fs')
                 else (PSA_SUCCESS, fs')))"

text \<open>
  \<open>storage_get_zfs\<close> has two more parameters: \<open>info_size\<close>, the value of
  \<^verbatim>\<open>sizeof(its_obj_info_t)\<close> (the type is declared in a header outside the sources),
  and \<open>stack\<close>, the 128 indeterminate bytes the uninitialised \<^verbatim>\<open>buf\<close> holds before
  \<open>zms_read\<close> fills its beginning. The final \<^verbatim>\<open>memcpy\<close> reads
  \<^verbatim>\<open>buf[info_size + obj_offset]\<close> up to \<^verbatim>\<open>buf[info_size + obj_offset + obj_length - 1]\<close>.
\<close>

definition get_read_indices :: "nat \<Rightarrow> 32 word \<Rightarrow> 32 word \<Rightarrow> nat list" where
  "get_read_indices info_size obj_offset obj_length =
     [info_size + unat obj_offset ..< info_size + unat obj_offset + unat obj_length]"

definition storage_get_zfs ::
  "nat \<Rightarrow> 'fs zms_api \<Rightarrow> byte list \<Rightarrow> 'fs \<Rightarrow> 64 word \<Rightarrow> 32 word \<Rightarrow> 32 word
     \<Rightarrow> byte list option \<Rightarrow> (psa_status_t \<times> byte list option) outcome" where
  "storage_get_zfs info_size api stack fs obj_uid obj_offset obj_length p_obj =
     (case p_obj of
        None \<Rightarrow> Returns (PSA_ERROR_INVALID_ARGUMENT, None)
      | Some out \<Rightarrow>
          if obj_offset + obj_length > of_nat BUF_SIZE
          then Returns (PSA_ERROR_INVALID_ARGUMENT, Some out)
          else
            (case zms_read api fs obj_uid BUF_SIZE of
               (rc, bs) \<Rightarrow>
                 let buf = take BUF_SIZE (bs @ drop (length bs) stack) in
                 if sint rc < 0 then Returns (PSA_ERROR_IO_ERROR, Some out)
                 else if rc < obj_offset + obj_length
                 then Returns (PSA_ERROR_IO_ERROR, Some out)
                 else if list_ex (\<lambda>i. BUF_SIZE \<le> i)
                           (get_read_indices info_size obj_offset obj_length)
                 then OutOfBounds
                 else Returns (PSA_SUCCESS,
                        Some (memcpy out (drop (info_size + unat obj_offset) buf)
                                (unat obj_length)))))"

definition storage_get_info_zfs ::
  "'fs zms_api \<Rightarrow> 'fs \<Rightarrow> 64 word \<Rightarrow> byte list option \<Rightarrow> 32 word
     \<Rightarrow> psa_status_t \<times> byte list option" where
  "storage_get_info_zfs api fs obj_uid p_obj_info obj_info_size =
     (case p_obj_info of
        None \<Rightarrow> (PSA_ERROR_INVALID_ARGUMENT, None)
      | Some out \<Rightarrow>
          (case zms_read api fs obj_uid (unat obj_info_size) of
             (rc, bs) \<Rightarrow>
               let out' = bs @ drop (length bs) out in
               if sint rc < 0 then (PSA_ERROR_IO_ERROR, Some out')
               else if rc < obj_info_size then (PSA_ERROR_IO_ERROR, Some out')
               else (PSA_SUCCESS, Some out')))"

definition storage_remove_zfs ::
  "'fs zms_api \<Rightarrow> 'fs \<Rightarrow> 64 word \<Rightarrow> 32 word \<Rightarrow> psa_status_t \<times> 'fs" where
  "storage_remove_zfs api fs obj_uid obj_size =
     (case zms_delete api fs obj_uid of
        (rc, fs') \<Rightarrow>
          if sint rc < 0 then (PSA_ERROR_IO_ERROR, fs') else (PSA_SUCCESS, fs'))"

text \<open>
  A reference backing log, used to run the Persistent Log Store on concrete inputs: a
  map from ids to records that follows the contract the interface relies on. A write of
  more than \<open>limit\<close> bytes is refused with \<^verbatim>\<open>-EINVAL\<close> and changes nothing, any other
  write stores the record and returns its length; a read returns \<^verbatim>\<open>-ENOENT\<close> for an
  unknown id and otherwise the first \<open>n\<close> bytes of the record with their count; a
  delete returns 0.
\<close>

type_synonym zms_log = "64 word \<rightharpoonup> byte list"

definition zms_ref :: "nat \<Rightarrow> zms_log zms_api" where
  "zms_ref limit =
     \<lparr>zms_write = (\<lambda>fs k d. if limit < length d then (- 22, fs)
                              else (of_nat (length d), fs(k \<mapsto> d))),
      zms_read = (\<lambda>fs k n. case fs k of
                              None \<Rightarrow> (- 2, [])
                            | Some d \<Rightarrow> (of_nat (min n (length d)), take n d)),
      zms_delete = (\<lambda>fs k. (0, fs(k := None)))\<rparr>"

text \<open>Concrete data for running the code: a free slot as \<^verbatim>\<open>storage_init\<close> leaves it, and
  the ten ASCII bytes of \<^verbatim>\<open>"0123456789"\<close>.\<close>

definition free_entry :: storage_entry_t where
  "free_entry =
     \<lparr>used = False, uid = 0, size_e = 0, data = replicate STORAGE_MAX_ITEM_SIZE 0xFF\<rparr>"

definition digits :: "byte list" where
  "digits = [0x30, 0x31, 0x32, 0x33, 0x34, 0x35, 0x36, 0x37, 0x38, 0x39]"

text \<open>
  A backing log whose failed writes change nothing: a \<open>zms_write\<close> that reports an
  error or fewer bytes than it was given leaves the log as it was.
\<close>

definition zms_failed_write_keeps_log :: "'fs zms_api \<Rightarrow> bool" where
  "zms_failed_write_keeps_log api \<longleftrightarrow>
     (\<forall>fs k d. sint (fst (zms_write api fs k d)) < 0
                 \<or> unat (fst (zms_write api fs k d)) < length d
               \<longrightarrow> snd (zms_write api fs k d) = fs)"

text \<open>The slot buffer \<^verbatim>\<open>storage_set\<close> leaves behind: the \<^verbatim>\<open>memcpy\<close>, then the \<^verbatim>\<open>memset\<close>
  of the tail when the object is shorter than the buffer.\<close>

definition slot_bytes :: "byte list \<Rightarrow> byte list \<Rightarrow> nat \<Rightarrow> byte list" where
  "slot_bytes old src n =
     (if n < STORAGE_MAX_ITEM_SIZE
      then memset_at (memcpy old src n) n 0 (STORAGE_MAX_ITEM_SIZE - n)
      else memcpy old src n)"

text \<open>
  A uid is stored when a used slot carries it; the table holds at most one slot per uid
  (\<open>unique_uids\<close>, kept by every operation, see \<open>unique_uids_set\<close> and
  \<open>unique_uids_remove\<close>).
\<close>

definition stored :: "storage_table_t \<Rightarrow> 64 word \<Rightarrow> bool" where
  "stored tbl u \<longleftrightarrow> (\<exists>i<STORAGE_MAX_ENTRIES. used (tbl ! i) \<and> uid (tbl ! i) = u)"

definition unique_uids :: "storage_table_t \<Rightarrow> bool" where
  "unique_uids tbl \<longleftrightarrow>
     (\<forall>i<STORAGE_MAX_ENTRIES. \<forall>j<STORAGE_MAX_ENTRIES.
        used (tbl ! i) \<and> used (tbl ! j) \<and> uid (tbl ! i) = uid (tbl ! j) \<longrightarrow> i = j)"

text \<open>A full table: the eight uids 1 to 8, each holding the one byte \<open>0x41\<close>
  (reached from the initial table by eight sets, \<open>full_table_reached\<close>).\<close>

definition full_table :: storage_table_t where
  "full_table =
     map (\<lambda>k. \<lparr>used = True, uid = k, size_e = 1, data = 0x41 # replicate 1023 0\<rparr>)
       [1, 2, 3, 4, 5, 6, 7, 8]"

text \<open>
  A backing log that reads back what it wrote: after a \<open>zms_write\<close> that reports
  neither an error nor a short count, \<open>zms_read\<close> of the same id returns the first
  \<open>n\<close> bytes of the record and their count.
\<close>

definition zms_read_after_write :: "'fs zms_api \<Rightarrow> bool" where
  "zms_read_after_write api \<longleftrightarrow>
     (\<forall>fs k d n.
        \<not> sint (fst (zms_write api fs k d)) < 0
          \<and> length d \<le> unat (fst (zms_write api fs k d))
        \<longrightarrow> zms_read api (snd (zms_write api fs k d)) k n
              = (of_nat (min n (length d)), take n d))"

text \<open>
  A backing log that stores what fits: a write of more than \<open>cap\<close> bytes stores the
  first \<open>cap\<close> bytes and reports that count, the short write that
  \<^verbatim>\<open>storage_set\<close> tests for after \<open>zms_write\<close> has returned.
\<close>

definition zms_trunc :: "nat \<Rightarrow> zms_log zms_api" where
  "zms_trunc cap =
     \<lparr>zms_write = (\<lambda>fs k d. (of_nat (min cap (length d)), fs(k \<mapsto> take cap d))),
      zms_read = (\<lambda>fs k n. case fs k of
                              None \<Rightarrow> (- 2, [])
                            | Some d \<Rightarrow> (of_nat (min n (length d)), take n d)),
      zms_delete = (\<lambda>fs k. (0, fs(k := None)))\<rparr>"

section \<open>Facts about the two searches\<close>

lemma find_entry_Some_iff:
  "find_entry tbl u = Some i \<longleftrightarrow>
     i < STORAGE_MAX_ENTRIES \<and> used (tbl ! i) \<and> uid (tbl ! i) = u
     \<and> (\<forall>j<i. \<not> (used (tbl ! j) \<and> uid (tbl ! j) = u))"
  unfolding find_entry_def find_Some_iff by auto

lemma find_entry_None_iff:
  "find_entry tbl u = None \<longleftrightarrow>
     (\<forall>i<STORAGE_MAX_ENTRIES. \<not> (used (tbl ! i) \<and> uid (tbl ! i) = u))"
  unfolding find_entry_def find_None_iff by auto

lemma find_free_slot_Some_iff:
  "find_free_slot tbl = Some i \<longleftrightarrow>
     i < STORAGE_MAX_ENTRIES \<and> \<not> used (tbl ! i) \<and> (\<forall>j<i. used (tbl ! j))"
  unfolding find_free_slot_def find_Some_iff by auto

lemma find_free_slot_None_iff:
  "find_free_slot tbl = None \<longleftrightarrow> (\<forall>i<STORAGE_MAX_ENTRIES. used (tbl ! i))"
  unfolding find_free_slot_def find_None_iff by auto

lemma find_entry_first:
  assumes "i < STORAGE_MAX_ENTRIES" "used (tbl ! i)" "uid (tbl ! i) = u"
  shows "\<exists>k\<le>i. find_entry tbl u = Some k"
proof (cases "find_entry tbl u")
  case None
  with assms show ?thesis by (auto simp: find_entry_None_iff)
next
  case (Some k)
  then have "\<not> i < k" using assms by (auto simp: find_entry_Some_iff)
  with Some show ?thesis by auto
qed

text \<open>The table after \<^verbatim>\<open>storage_init\<close>: eight free slots filled with \<open>0xFF\<close>.\<close>

lemma replicate_8: "replicate 8 x = [x, x, x, x, x, x, x, x]"
  by (simp add: numeral_eq_Suc)

lemma storage_init_zero:
  "storage_init storage_table_zero = replicate 8 free_entry"
  unfolding replicate_8 storage_table_zero_def STORAGE_MAX_ENTRIES_def
  by (simp add: storage_init_def STORAGE_MAX_ENTRIES_def upt_rec free_entry_def)

section \<open>The unused size argument of remove\<close>

text \<open>
  C10. In both backends the \<open>obj_size\<close> parameter of remove has no effect: for every
  uid, every store state and any two sizes, the two calls return the same status and
  leave the same store state.
\<close>

theorem remove_ignores_obj_size:
  "storage_remove tbl obj_uid s1 = storage_remove tbl obj_uid s2
   \<and> storage_remove_zfs api fs obj_uid s1 = storage_remove_zfs api fs obj_uid s2"
  by (simp add: storage_remove_def storage_remove_zfs_def)

section \<open>Running the code on concrete inputs\<close>

lemmas run_simps = find_entry_def find_free_slot_def STORAGE_MAX_ENTRIES_def
  STORAGE_MAX_ITEM_SIZE_def BUF_SIZE_def upt_rec memcpy_def memset_at_def digits_def
  free_entry_def

text \<open>\<^verbatim>\<open>set(0xA, 10, "0123456789")\<close> on the freshly initialised table, and on an empty log.\<close>

lemma set_digits:
  "storage_set (storage_init storage_table_zero) 0xA 10 (Some digits) =
     (PSA_SUCCESS,
      [\<lparr>used = True, uid = 0xA, size_e = 10, data = digits @ replicate 1014 0\<rparr>,
       free_entry, free_entry, free_entry, free_entry, free_entry, free_entry, free_entry])"
  unfolding storage_init_zero replicate_8
  by (simp add: storage_set_def run_simps)

lemma set_zfs_digits:
  "storage_set_zfs (zms_ref 1024) Map.empty 0xA 10 (Some digits) =
     (PSA_SUCCESS, [0xA \<mapsto> digits])"
  by (simp add: storage_set_zfs_def zms_ref_def run_simps)

section \<open>get in the Volatile Table Store\<close>

lemma storage_get_found:
  assumes "find_entry tbl obj_uid = Some idx"
  shows "storage_get tbl obj_uid obj_offset obj_length (Some out) =
     (if size_e (tbl ! idx) < obj_offset then (PSA_ERROR_INVALID_ARGUMENT, Some out)
      else (PSA_SUCCESS,
            Some (take (min (unat obj_length) (unat (size_e (tbl ! idx)) - unat obj_offset))
                    (drop (unat obj_offset) (data (tbl ! idx)))
                  @ drop (min (unat obj_length) (unat (size_e (tbl ! idx)) - unat obj_offset))
                      out)))"
proof (cases "size_e (tbl ! idx) < obj_offset")
  case True
  then show ?thesis using assms by (simp add: storage_get_def)
next
  case False
  then have le: "obj_offset \<le> size_e (tbl ! idx)" by simp
  then have sub:
    "unat (size_e (tbl ! idx) - obj_offset) = unat (size_e (tbl ! idx)) - unat obj_offset"
    by (simp add: unat_sub)
  let ?avail = "size_e (tbl ! idx) - obj_offset"
  let ?n = "if ?avail < obj_length then ?avail else obj_length"
  have n: "unat ?n = min (unat obj_length) (unat (size_e (tbl ! idx)) - unat obj_offset)"
    using sub by (auto simp: word_less_nat_alt min_def)
  have "storage_get tbl obj_uid obj_offset obj_length (Some out) =
      (PSA_SUCCESS,
       Some (if 0 < ?n
             then memcpy out (drop (unat obj_offset) (data (tbl ! idx))) (unat ?n)
             else out))"
    using assms False by (simp add: storage_get_def Let_def)
  also have "(if 0 < ?n
              then memcpy out (drop (unat obj_offset) (data (tbl ! idx))) (unat ?n)
              else out)
      = memcpy out (drop (unat obj_offset) (data (tbl ! idx))) (unat ?n)"
    by (cases "?n = 0") (simp_all add: memcpy_def word_greater_zero_iff)
  finally show ?thesis using False n by (simp add: memcpy_def)
qed

section \<open>get\_info copies payload bytes, not the stored size\<close>

text \<open>
  C1 (the code departs from the claim). After the successful
  \<^verbatim>\<open>set(0xA, 10, "0123456789")\<close>, \<^verbatim>\<open>get_info(0xA, out_info, 4)\<close> succeeds and leaves in
  \<open>out_info\<close> the first four payload bytes \<^verbatim>\<open>"0123"\<close>, not the stored size 10; with
  \<open>info_size = 0\<close> it succeeds and writes nothing at all. The Persistent Log Store
  does the same over the reference log. The comment in \<^verbatim>\<open>storage_get_info\<close> announces
  ``return stored size as uint32\_t''.
\<close>

theorem get_info_copies_payload_not_size:
  "fst (storage_set (storage_init storage_table_zero) 0xA 10 (Some digits)) = PSA_SUCCESS
   \<and> storage_get_info
       (snd (storage_set (storage_init storage_table_zero) 0xA 10 (Some digits)))
       0xA (Some [0, 0, 0, 0]) 4
     = (PSA_SUCCESS, Some [0x30, 0x31, 0x32, 0x33])
   \<and> storage_get_info
       (snd (storage_set (storage_init storage_table_zero) 0xA 10 (Some digits)))
       0xA (Some [0, 0, 0, 0]) 0
     = (PSA_SUCCESS, Some [0, 0, 0, 0])
   \<and> fst (storage_set_zfs (zms_ref 1024) Map.empty 0xA 10 (Some digits)) = PSA_SUCCESS
   \<and> storage_get_info_zfs (zms_ref 1024)
       (snd (storage_set_zfs (zms_ref 1024) Map.empty 0xA 10 (Some digits)))
       0xA (Some [0, 0, 0, 0]) 4
     = (PSA_SUCCESS, Some [0x30, 0x31, 0x32, 0x33])"
  unfolding set_digits set_zfs_digits snd_conv fst_conv
  by (simp add: storage_get_info_def storage_get_info_zfs_def zms_ref_def run_simps)

section \<open>What set does to the store\<close>

lemma storage_set_full:
  assumes "find_entry tbl x = None" "find_free_slot tbl = None"
  shows "storage_set tbl x n (Some d) = (PSA_ERROR_INSUFFICIENT_STORAGE, tbl)"
  using assms by (simp add: storage_set_def)

lemma storage_set_existing:
  assumes "find_entry tbl x = Some idx" "unat n \<le> STORAGE_MAX_ITEM_SIZE"
  shows "storage_set tbl x n (Some d) =
     (PSA_SUCCESS,
      tbl[idx := \<lparr>used = True, uid = x, size_e = n,
                  data = slot_bytes (data (tbl ! idx)) d (unat n)\<rparr>])"
  using assms by (simp add: storage_set_def Let_def slot_bytes_def)

lemma storage_set_fresh:
  assumes "find_entry tbl x = None" "find_free_slot tbl = Some idx"
    "unat n \<le> STORAGE_MAX_ITEM_SIZE"
  shows "storage_set tbl x n (Some d) =
     (PSA_SUCCESS,
      tbl[idx := \<lparr>used = True, uid = x, size_e = n,
                  data = slot_bytes (data (tbl ! idx)) d (unat n)\<rparr>])"
  using assms by (simp add: storage_set_def Let_def slot_bytes_def)

lemma storage_set_error_keeps_table:
  "fst (storage_set tbl x n p) \<noteq> PSA_SUCCESS \<Longrightarrow> snd (storage_set tbl x n p) = tbl"
  by (auto simp: storage_set_def Let_def split: option.splits if_splits)

lemma storage_set_zfs_error_keeps_log:
  assumes atomic: "zms_failed_write_keeps_log api"
    and buf: "\<forall>src. p = Some src \<longrightarrow> unat n \<le> length src"
    and err: "fst (storage_set_zfs api fs x n p) \<noteq> PSA_SUCCESS"
  shows "snd (storage_set_zfs api fs x n p) = fs"
proof (cases p)
  case None
  then show ?thesis by (simp add: storage_set_zfs_def)
next
  case (Some src)
  show ?thesis
  proof (cases "unat n > STORAGE_MAX_ITEM_SIZE")
    case True
    with Some show ?thesis by (simp add: storage_set_zfs_def)
  next
    case False
    let ?d = "take (unat n) src"
    obtain rc fs' where w: "zms_write api fs x ?d = (rc, fs')"
      by (cases "zms_write api fs x ?d")
    have len: "length ?d = unat n" using buf Some by simp
    from err Some False w have "sint rc < 0 \<or> rc < n"
      by (simp add: storage_set_zfs_def split: if_splits)
    then have bad: "sint rc < 0 \<or> unat rc < length ?d"
      unfolding len by (simp add: word_less_nat_alt)
    from atomic have "sint (fst (zms_write api fs x ?d)) < 0
                 \<or> unat (fst (zms_write api fs x ?d)) < length ?d
               \<longrightarrow> snd (zms_write api fs x ?d) = fs"
      unfolding zms_failed_write_keeps_log_def by blast
    with bad w have "fs' = fs" by simp
    with Some False w show ?thesis by (simp add: storage_set_zfs_def)
  qed
qed

lemma sint_of_nat_small:
  assumes "n < 2 ^ 31"
  shows "sint (word_of_nat n :: 32 word) = int n"
proof -
  have "int n < 2 ^ 31"
    using assms by (metis of_nat_less_iff of_nat_numeral of_nat_power)
  moreover have "- (2 ^ 31) \<le> int n" by (rule order_trans [of _ 0]) simp_all
  ultimately have "signed_take_bit 31 (int n) = int n"
    by (rule signed_take_bit_int_eq_self [OF _ _, rotated])
  then show ?thesis
    by (simp add: signed_of_nat)
qed

lemma unat_of_nat_small:
  assumes "n < 2 ^ 31"
  shows "unat (word_of_nat n :: 32 word) = n"
proof -
  have "n < 2 ^ 32" using assms by simp
  then show ?thesis by (simp add: unat_of_nat)
qed

lemma zms_ref_keeps_log:
  assumes "limit < 2 ^ 31"
  shows "zms_failed_write_keeps_log (zms_ref limit)"
  unfolding zms_failed_write_keeps_log_def
proof (intro allI impI)
  fix fs :: zms_log and k d
  assume bad: "sint (fst (zms_write (zms_ref limit) fs k d)) < 0
       \<or> unat (fst (zms_write (zms_ref limit) fs k d)) < length d"
  show "snd (zms_write (zms_ref limit) fs k d) = fs"
  proof (cases "limit < length d")
    case True
    then show ?thesis by (simp add: zms_ref_def)
  next
    case False
    then have "length d < 2 ^ 31" using assms by simp
    then have s: "sint (word_of_nat (length d) :: 32 word) = int (length d)"
      and u: "unat (word_of_nat (length d) :: 32 word) = length d"
      by (rule sint_of_nat_small, rule unat_of_nat_small)
    have "fst (zms_write (zms_ref limit) fs k d) = word_of_nat (length d)"
      using False by (simp add: zms_ref_def)
    with bad s u show ?thesis by simp
  qed
qed


section \<open>Stored uids and the table invariant\<close>

lemma find_entry_None_stored: "find_entry tbl u = None \<longleftrightarrow> \<not> stored tbl u"
  by (auto simp: find_entry_None_iff stored_def)

lemma stored_find_entry:
  assumes "stored tbl u"
  obtains k where "find_entry tbl u = Some k" "k < STORAGE_MAX_ENTRIES"
    "used (tbl ! k)" "uid (tbl ! k) = u"
proof -
  from assms have "find_entry tbl u \<noteq> None" by (simp add: find_entry_None_stored)
  then obtain k where "find_entry tbl u = Some k" by auto
  then show ?thesis using that by (auto simp: find_entry_Some_iff)
qed

lemma storage_remove_stored:
  assumes "find_entry tbl u = Some k"
  shows "storage_remove tbl u sz =
     (PSA_SUCCESS, tbl[k := \<lparr>used = False, uid = 0, size_e = 0,
                             data = replicate STORAGE_MAX_ITEM_SIZE 0\<rparr>])"
  using assms by (simp add: storage_remove_def)

lemma storage_remove_not_stored:
  assumes "\<not> stored tbl u"
  shows "storage_remove tbl u sz = (PSA_ERROR_DOES_NOT_EXIST, tbl)"
  using assms by (simp add: storage_remove_def find_entry_None_stored [symmetric])

lemma not_stored_after_remove:
  assumes len: "length tbl = STORAGE_MAX_ENTRIES" and uniq: "unique_uids tbl"
  shows "\<not> stored (snd (storage_remove tbl u sz)) u"
proof (cases "stored tbl u")
  case False
  then show ?thesis by (simp add: storage_remove_not_stored)
next
  case True
  then obtain k where k: "find_entry tbl u = Some k" "k < STORAGE_MAX_ENTRIES"
    "used (tbl ! k)" "uid (tbl ! k) = u"
    by (rule stored_find_entry)
  let ?e = "\<lparr>used = False, uid = 0, size_e = 0, data = replicate STORAGE_MAX_ITEM_SIZE 0\<rparr>"
  have "\<not> (used (tbl[k := ?e] ! i) \<and> uid (tbl[k := ?e] ! i) = u)"
    if "i < STORAGE_MAX_ENTRIES" for i
  proof (cases "i = k")
    case True
    then show ?thesis using len k(2) by simp
  next
    case False
    then have "tbl[k := ?e] ! i = tbl ! i" by simp
    moreover have "\<not> (used (tbl ! i) \<and> uid (tbl ! i) = u)"
      using uniq k that False unfolding unique_uids_def by blast
    ultimately show ?thesis by simp
  qed
  then show ?thesis
    unfolding storage_remove_stored [OF k(1)] snd_conv stored_def by blast
qed

lemma not_stored_init: "\<not> stored (storage_init storage_table_zero) u"
  unfolding storage_init_zero stored_def STORAGE_MAX_ENTRIES_def
  by (auto simp: free_entry_def)

lemma storage_set_slot:
  "storage_set tbl x n p = (fst (storage_set tbl x n p), tbl)
   \<or> (\<exists>idx e. storage_set tbl x n p = (PSA_SUCCESS, tbl[idx := e])
         \<and> idx < STORAGE_MAX_ENTRIES \<and> used e \<and> uid e = x \<and> size_e e = n
         \<and> (find_entry tbl x = Some idx
              \<or> find_entry tbl x = None \<and> find_free_slot tbl = Some idx))"
proof (cases "fst (storage_set tbl x n p) = PSA_SUCCESS")
  case False
  then show ?thesis using storage_set_error_keeps_table [of tbl x n p]
    by (metis prod.collapse)
next
  case True
  then obtain d where p: "p = Some d" and n: "unat n \<le> STORAGE_MAX_ITEM_SIZE"
    by (cases p) (auto simp: storage_set_def split: if_splits)
  show ?thesis
  proof (cases "find_entry tbl x")
    case (Some idx)
    then have "idx < STORAGE_MAX_ENTRIES" by (simp add: find_entry_Some_iff)
    with Some show ?thesis
      unfolding p storage_set_existing [OF Some n] by auto
  next
    case None
    with True p n obtain idx where f: "find_free_slot tbl = Some idx"
      by (cases "find_free_slot tbl") (auto simp: storage_set_def)
    then have "idx < STORAGE_MAX_ENTRIES" by (simp add: find_free_slot_Some_iff)
    with None f show ?thesis
      unfolding p storage_set_fresh [OF None f n] by auto
  qed
qed

lemma storage_set_cases:
  obtains (unchanged) "snd (storage_set tbl x n p) = tbl"
  | (written) idx e where "storage_set tbl x n p = (PSA_SUCCESS, tbl[idx := e])"
      "idx < STORAGE_MAX_ENTRIES" "used e" "uid e = x" "size_e e = n"
      "find_entry tbl x = Some idx
         \<or> find_entry tbl x = None \<and> find_free_slot tbl = Some idx"
  using storage_set_slot [of tbl x n p] by (metis snd_conv)

lemma not_stored_after_set_other:
  assumes len: "length tbl = STORAGE_MAX_ENTRIES" and ns: "\<not> stored tbl u" and ne: "x \<noteq> u"
  shows "\<not> stored (snd (storage_set tbl x n p)) u"
proof (cases rule: storage_set_cases [of tbl x n p])
  case unchanged
  with ns show ?thesis by simp
next
  case (written idx e)
  note eq = written(1) and idx = written(2) and e = written(4)
  have "\<not> (used (tbl[idx := e] ! i) \<and> uid (tbl[idx := e] ! i) = u)"
    if "i < STORAGE_MAX_ENTRIES" for i
    using ns that ne e len idx unfolding stored_def
    by (cases "i = idx") auto
  then show ?thesis unfolding eq snd_conv stored_def by blast
qed

lemma length_storage_set: "length (snd (storage_set tbl x n p)) = length tbl"
  by (cases rule: storage_set_cases [of tbl x n p]) simp_all

lemma length_storage_remove: "length (snd (storage_remove tbl x sz)) = length tbl"
  by (simp add: storage_remove_def split: option.splits)

lemma length_storage_init: "length (storage_init storage_table_zero) = STORAGE_MAX_ENTRIES"
  by (simp add: storage_init_zero STORAGE_MAX_ENTRIES_def)

lemma unique_uids_init: "unique_uids (storage_init storage_table_zero)"
  unfolding storage_init_zero unique_uids_def STORAGE_MAX_ENTRIES_def
  by (auto simp: free_entry_def)

lemma unique_uids_remove:
  assumes len: "length tbl = STORAGE_MAX_ENTRIES" and uniq: "unique_uids tbl"
  shows "unique_uids (snd (storage_remove tbl u sz))"
proof (cases "find_entry tbl u")
  case None
  then show ?thesis using uniq by (simp add: storage_remove_def)
next
  case (Some k)
  let ?e = "\<lparr>used = False, uid = 0, size_e = 0, data = replicate STORAGE_MAX_ITEM_SIZE 0\<rparr>"
  have k: "k < STORAGE_MAX_ENTRIES" using Some by (simp add: find_entry_Some_iff)
  have "i = j" if "i < STORAGE_MAX_ENTRIES" "j < STORAGE_MAX_ENTRIES"
    "used (tbl[k := ?e] ! i)" "used (tbl[k := ?e] ! j)"
    "uid (tbl[k := ?e] ! i) = uid (tbl[k := ?e] ! j)" for i j
  proof -
    from that(1,3) len k have ik: "i \<noteq> k" by auto
    from that(2,4) len k have jk: "j \<noteq> k" by auto
    from ik jk that uniq show ?thesis unfolding unique_uids_def by simp
  qed
  then show ?thesis
    unfolding storage_remove_stored [OF Some] snd_conv unique_uids_def by blast
qed

lemma unique_uids_set:
  assumes len: "length tbl = STORAGE_MAX_ENTRIES" and uniq: "unique_uids tbl"
  shows "unique_uids (snd (storage_set tbl x n p))"
proof (cases rule: storage_set_cases [of tbl x n p])
  case unchanged
  with uniq show ?thesis by simp
next
  case (written idx e)
  note eq = written(1) and idx = written(2) and e = written(3,4) and how = written(6)
  have other: "\<not> (used (tbl ! i) \<and> uid (tbl ! i) = x)"
    if "i < STORAGE_MAX_ENTRIES" "i \<noteq> idx" for i
  proof (cases "find_entry tbl x")
    case None
    then show ?thesis using that by (simp add: find_entry_None_iff)
  next
    case (Some k)
    with how have ki: "k = idx" by auto
    with Some have "used (tbl ! idx) \<and> uid (tbl ! idx) = x"
      by (simp add: find_entry_Some_iff)
    with uniq that idx show ?thesis unfolding unique_uids_def by blast
  qed
  have "i = j" if "i < STORAGE_MAX_ENTRIES" "j < STORAGE_MAX_ENTRIES"
    "used (tbl[idx := e] ! i)" "used (tbl[idx := e] ! j)"
    "uid (tbl[idx := e] ! i) = uid (tbl[idx := e] ! j)" for i j
  proof (cases "i = idx")
    case True
    show ?thesis
    proof (rule ccontr)
      assume "i \<noteq> j"
      with True have j: "j \<noteq> idx" by simp
      with that True len idx e have "used (tbl ! j) \<and> uid (tbl ! j) = x" by simp
      with other [OF that(2) j] show False by simp
    qed
  next
    case False
    show ?thesis
    proof (cases "j = idx")
      case True
      with that False len idx e have "used (tbl ! i) \<and> uid (tbl ! i) = x" by simp
      with other [OF that(1) False] show ?thesis by simp
    next
      case jf: False
      with False that uniq show ?thesis unfolding unique_uids_def by simp
    qed
  qed
  then show ?thesis unfolding eq snd_conv unique_uids_def by blast
qed

section \<open>Status codes of the Persistent Log Store\<close>

lemma storage_get_info_zfs_status:
  "fst (storage_get_info_zfs api fs u p n) \<in> {PSA_SUCCESS, PSA_ERROR_INVALID_ARGUMENT, PSA_ERROR_IO_ERROR}"
  by (cases p; cases "zms_read api fs u (unat n)") (simp_all add: storage_get_info_zfs_def Let_def)

lemma storage_remove_zfs_status:
  "fst (storage_remove_zfs api fs u sz) \<in> {PSA_SUCCESS, PSA_ERROR_IO_ERROR}"
  by (cases "zms_delete api fs u") (simp add: storage_remove_zfs_def)

lemma storage_get_zfs_status:
  "storage_get_zfs hdr api stack fs u off len q = OutOfBounds
   \<or> (\<exists>st r. storage_get_zfs hdr api stack fs u off len q = Returns (st, r)
         \<and> st \<in> {PSA_SUCCESS, PSA_ERROR_INVALID_ARGUMENT, PSA_ERROR_IO_ERROR})"
  by (cases q; cases "zms_read api fs u BUF_SIZE")
     (simp_all add: storage_get_zfs_def Let_def)

section \<open>Capacity of the Volatile Table Store\<close>

lemma full_table_new_uid:
  assumes full: "\<forall>i<STORAGE_MAX_ENTRIES. used (tbl ! i)" and new: "\<not> stored tbl v"
  shows "storage_set tbl v n (Some d) = (PSA_ERROR_INSUFFICIENT_STORAGE, tbl)"
  using new full
  by (intro storage_set_full) (simp_all add: find_entry_None_stored find_free_slot_None_iff)

lemma full_table_reached:
  "fold (\<lambda>k t. snd (storage_set t k 1 (Some [0x41]))) [1, 2, 3, 4, 5, 6, 7, 8]
     (storage_init storage_table_zero) = full_table"
  unfolding storage_init_zero replicate_8 full_table_def
  by (simp add: storage_set_def run_simps)

text \<open>
  C7. In the Volatile Table Store, once all eight slots are used (eight distinct uids
  are stored), set for a uid that is not stored fails with InsufficientStorage and leaves the table as it was, while set
  for a stored uid (with a length of at most 1024) still succeeds; after removing one
  stored uid, set for one new uid succeeds, and set for a further new uid fails with
  InsufficientStorage again.
\<close>

theorem capacity_eight_slots:
  assumes len: "length tbl = STORAGE_MAX_ENTRIES"
    and full: "\<forall>e\<in>set tbl. used e"
    and u: "u \<in> uid ` set tbl"
    and v: "v \<notin> uid ` set tbl"
    and w: "w \<notin> uid ` set tbl"
    and vw: "v \<noteq> w"
    and n: "unat n \<le> STORAGE_MAX_ITEM_SIZE"
  shows "storage_set tbl v n (Some d) = (PSA_ERROR_INSUFFICIENT_STORAGE, tbl)
   \<and> fst (storage_set tbl u n (Some d)) = PSA_SUCCESS
   \<and> fst (storage_remove tbl u sz) = PSA_SUCCESS
   \<and> fst (storage_set (snd (storage_remove tbl u sz)) v n (Some d)) = PSA_SUCCESS
   \<and> storage_set (snd (storage_set (snd (storage_remove tbl u sz)) v n (Some d))) w m (Some d')
       = (PSA_ERROR_INSUFFICIENT_STORAGE,
          snd (storage_set (snd (storage_remove tbl u sz)) v n (Some d)))"
proof -
  have nth_in: "tbl ! i \<in> set tbl" if "i < STORAGE_MAX_ENTRIES" for i
    using that len by simp
  have used_all: "\<forall>i<STORAGE_MAX_ENTRIES. used (tbl ! i)"
    using full nth_in by blast
  have nv: "uid (tbl ! i) \<noteq> v" if "i < STORAGE_MAX_ENTRIES" for i
    using v nth_in [OF that] by blast
  have nw: "uid (tbl ! i) \<noteq> w" if "i < STORAGE_MAX_ENTRIES" for i
    using w nth_in [OF that] by blast
  have not_v: "\<not> stored tbl v" using nv by (auto simp: stored_def)
  from u obtain i where "i < STORAGE_MAX_ENTRIES" "uid (tbl ! i) = u"
    using len by (auto simp: in_set_conv_nth)
  with used_all have "stored tbl u" by (auto simp: stored_def)
  then obtain k where k: "find_entry tbl u = Some k" "k < STORAGE_MAX_ENTRIES"
    by (rule stored_find_entry)
  have c1: "storage_set tbl v n (Some d) = (PSA_ERROR_INSUFFICIENT_STORAGE, tbl)"
    using used_all not_v by (rule full_table_new_uid)
  have c2: "fst (storage_set tbl u n (Some d)) = PSA_SUCCESS"
    by (simp add: storage_set_existing [OF k(1) n])
  let ?z = "\<lparr>used = False, uid = 0, size_e = 0, data = replicate STORAGE_MAX_ITEM_SIZE 0\<rparr>"
  let ?t1 = "tbl[k := ?z]"
  have r: "storage_remove tbl u sz = (PSA_SUCCESS, ?t1)"
    by (rule storage_remove_stored [OF k(1)])
  have t1_k: "\<not> used (?t1 ! k)" using k(2) len by simp
  have t1_other: "?t1 ! j = tbl ! j" if "j \<noteq> k" for j using that by simp
  have fe1: "find_entry ?t1 v = None"
    unfolding find_entry_None_iff
  proof (intro allI impI)
    fix j assume j: "j < STORAGE_MAX_ENTRIES"
    show "\<not> (used (?t1 ! j) \<and> uid (?t1 ! j) = v)"
      using t1_k t1_other [of j] nv [OF j] by (cases "j = k") auto
  qed
  have ff1: "find_free_slot ?t1 = Some k"
    unfolding find_free_slot_Some_iff
    using k(2) t1_k t1_other used_all by auto
  let ?e = "\<lparr>used = True, uid = v, size_e = n, data = slot_bytes (data (?t1 ! k)) d (unat n)\<rparr>"
  let ?t2 = "?t1[k := ?e]"
  have s: "storage_set ?t1 v n (Some d) = (PSA_SUCCESS, ?t2)"
    by (rule storage_set_fresh [OF fe1 ff1 n])
  have t2_k: "?t2 ! k = ?e" using k(2) len by simp
  have t2_other: "?t2 ! j = tbl ! j" if "j \<noteq> k" for j using that by simp
  have used2: "\<forall>j<STORAGE_MAX_ENTRIES. used (?t2 ! j)"
  proof (intro allI impI)
    fix j assume j: "j < STORAGE_MAX_ENTRIES"
    show "used (?t2 ! j)"
      using t2_k t2_other [of j] used_all j by (cases "j = k") auto
  qed
  have not_w: "\<not> stored ?t2 w"
    unfolding stored_def
  proof (intro notI, elim exE conjE)
    fix j assume j: "j < STORAGE_MAX_ENTRIES" and "uid (?t2 ! j) = w"
    then show False
      using t2_k t2_other [of j] nw [OF j] vw by (cases "j = k") auto
  qed
  have c5: "storage_set ?t2 w m (Some d') = (PSA_ERROR_INSUFFICIENT_STORAGE, ?t2)"
    using used2 not_w by (rule full_table_new_uid)
  show ?thesis
    unfolding r snd_conv fst_conv s
    using c1 c2 c5 unfolding r snd_conv by simp
qed

theorem capacity_eight_slots_witness:
  "storage_set full_table 9 1 (Some [0x41]) = (PSA_ERROR_INSUFFICIENT_STORAGE, full_table)
   \<and> fst (storage_set full_table 3 1 (Some [0x41])) = PSA_SUCCESS
   \<and> fst (storage_remove full_table 3 1) = PSA_SUCCESS
   \<and> fst (storage_set (snd (storage_remove full_table 3 1)) 9 1 (Some [0x41])) = PSA_SUCCESS
   \<and> storage_set (snd (storage_set (snd (storage_remove full_table 3 1)) 9 1 (Some [0x41])))
        10 1 (Some [0x42])
       = (PSA_ERROR_INSUFFICIENT_STORAGE,
          snd (storage_set (snd (storage_remove full_table 3 1)) 9 1 (Some [0x41])))"
proof -
  have len: "length full_table = STORAGE_MAX_ENTRIES"
    by (simp add: full_table_def STORAGE_MAX_ENTRIES_def)
  have full: "\<forall>e\<in>set full_table. used e" by (simp add: full_table_def)
  have uids: "uid ` set full_table = {1, 2, 3, 4, 5, 6, 7, 8}"
    by (simp add: full_table_def)
  have u: "3 \<in> uid ` set full_table" unfolding uids by simp
  have v: "9 \<notin> uid ` set full_table" unfolding uids by simp
  have w: "10 \<notin> uid ` set full_table" unfolding uids by simp
  have vw: "(9 :: 64 word) \<noteq> 10" by simp
  have n: "unat (1 :: 32 word) \<le> STORAGE_MAX_ITEM_SIZE"
    by (simp add: STORAGE_MAX_ITEM_SIZE_def)
  show ?thesis
    by (rule capacity_eight_slots [OF len full u v w vw n])
qed

section \<open>The window checks of get in the Persistent Log Store\<close>

lemma list_ex_upt_ge: "list_ex (\<lambda>i. B \<le> i) [a..<b] \<longleftrightarrow> a < b \<and> B < b"
proof
  assume "list_ex (\<lambda>i. B \<le> i) [a..<b]"
  then obtain i where "a \<le> i" "i < b" "B \<le> i" by (auto simp: list_ex_iff)
  then show "a < b \<and> B < b" by simp
next
  assume h: "a < b \<and> B < b"
  then have "max a B \<in> set [a..<b]" "B \<le> max a B" by auto
  then show "list_ex (\<lambda>i. B \<le> i) [a..<b]" unfolding list_ex_iff by blast
qed

lemma reads_past_buffer_iff:
  "list_ex (\<lambda>i. BUF_SIZE \<le> i) (get_read_indices h off len)
     \<longleftrightarrow> 0 < unat len \<and> BUF_SIZE < h + unat off + unat len"
  by (simp add: get_read_indices_def list_ex_upt_ge)

lemma storage_get_zfs_after_guard:
  assumes "\<not> of_nat BUF_SIZE < off + len" "zms_read api fs u BUF_SIZE = (rc, bs)"
  shows "storage_get_zfs h api stack fs u off len (Some out) =
     (if sint rc < 0 \<or> rc < off + len then Returns (PSA_ERROR_IO_ERROR, Some out)
      else if 0 < unat len \<and> BUF_SIZE < h + unat off + unat len then OutOfBounds
      else Returns (PSA_SUCCESS,
             Some (memcpy out
                    (drop (h + unat off) (take BUF_SIZE (bs @ drop (length bs) stack)))
                    (unat len))))"
  using assms by (simp add: storage_get_zfs_def Let_def reads_past_buffer_iff)

lemma offset_length_wrap: "(0xFFFFFFFF :: 32 word) + 1 = 0"
  by simp

lemma get_zfs_window_too_large:
  assumes "unat off + unat len < 2 ^ 32" "BUF_SIZE < unat off + unat len"
  shows "storage_get_zfs h api stack fs u off len (Some out)
           = Returns (PSA_ERROR_INVALID_ARGUMENT, Some out)"
proof -
  have "unat (off + len) = unat off + unat len"
    using assms(1) by (simp add: unat_add_lem [THEN iffD1])
  then have "of_nat BUF_SIZE < off + len"
    using assms(2) by (simp add: word_less_nat_alt BUF_SIZE_def)
  then show ?thesis by (simp add: storage_get_zfs_def)
qed

lemma get_zfs_short_record:
  assumes "unat off + unat len \<le> BUF_SIZE" "zms_read api fs u BUF_SIZE = (rc, bs)"
    "unat rc < unat off + unat len"
  shows "storage_get_zfs h api stack fs u off len (Some out)
           = Returns (PSA_ERROR_IO_ERROR, Some out)"
proof -
  have s: "unat (off + len) = unat off + unat len"
    using assms(1) by (simp add: unat_add_lem [THEN iffD1] BUF_SIZE_def)
  then have g: "\<not> of_nat BUF_SIZE < off + len"
    using assms(1) by (simp add: word_less_nat_alt BUF_SIZE_def)
  have "rc < off + len" using assms(3) s by (simp add: word_less_nat_alt)
  then show ?thesis
    unfolding storage_get_zfs_after_guard [OF g assms(2)] by simp
qed

text \<open>
  C3 (the code departs from the claim). The guard adds \<open>obj_offset\<close> and
  \<open>obj_length\<close> in 32-bit arithmetic, so a sum beyond \<open>2^32\<close> wraps and passes it.
  For \<^verbatim>\<open>get(uid, 0xFFFFFFFF, 1, out)\<close> the sum is \<open>2^32 > 128\<close>, yet the call never
  returns InvalidArgument: it returns IOError only when \<open>zms_read\<close> itself fails, and
  otherwise, although every record is shorter than \<open>offset + length\<close>, goes on to the
  copy, which reads outside the working buffer. Without wrap-around both halves of
  the claim hold (\<open>get_zfs_window_too_large\<close>, \<open>get_zfs_short_record\<close>).
\<close>

theorem get_zfs_guard_wraps:
  "storage_get_zfs info_size api stack fs u 0xFFFFFFFF 1 (Some out) =
     (if sint (fst (zms_read api fs u BUF_SIZE)) < 0
      then Returns (PSA_ERROR_IO_ERROR, Some out)
      else OutOfBounds)"
proof -
  obtain rc bs where r: "zms_read api fs u BUF_SIZE = (rc, bs)"
    by (cases "zms_read api fs u BUF_SIZE")
  have g: "\<not> of_nat BUF_SIZE < (0xFFFFFFFF :: 32 word) + 1"
    by (simp add: BUF_SIZE_def)
  show ?thesis
    unfolding storage_get_zfs_after_guard [OF g r] r fst_conv offset_length_wrap
    by (simp add: BUF_SIZE_def)
qed

text \<open>
  C9 (the code departs from the claim). The copy reads the working buffer at the indices
  \<open>get_read_indices\<close>, which start \<^verbatim>\<open>sizeof(its_obj_info_t)\<close> after \<open>obj_offset\<close>, while the
  guard and the length check only bound \<open>obj_offset + obj_length\<close>. For every
  header size \<open>Suc h\<close> of at least one byte, \<^verbatim>\<open>get(1, 0, 128, out)\<close> on a 128-byte record
  passes both checks and reads index \<open>128 + h\<close>, outside the 128-byte buffer; and
  for every header size \<open>h\<close>, \<^verbatim>\<open>get(1, 0xFFFFFFFF, 1, out)\<close>, whose 32-bit sum wraps to
  0, passes both checks and reads index \<open>h + 4294967295\<close>.
\<close>

theorem get_zfs_reads_past_buffer:
  "storage_get_zfs (Suc h) (zms_ref 1024) stack [1 \<mapsto> replicate 128 0x41] 1 0 128 (Some out)
     = OutOfBounds
   \<and> BUF_SIZE + h \<in> set (get_read_indices (Suc h) 0 128)
   \<and> storage_get_zfs h (zms_ref 1024) stack [1 \<mapsto> [0x41]] 1 0xFFFFFFFF 1 (Some out)
     = OutOfBounds
   \<and> h + 4294967295 \<in> set (get_read_indices h 0xFFFFFFFF 1)"
proof (intro conjI)
  have g: "\<not> of_nat BUF_SIZE < (0 :: 32 word) + 128" by (simp add: BUF_SIZE_def)
  have r: "zms_read (zms_ref 1024) [1 \<mapsto> replicate 128 0x41] 1 BUF_SIZE
             = (128, replicate 128 0x41)"
    by (simp add: zms_ref_def BUF_SIZE_def)
  show "storage_get_zfs (Suc h) (zms_ref 1024) stack [1 \<mapsto> replicate 128 0x41] 1 0 128
          (Some out) = OutOfBounds"
    unfolding storage_get_zfs_after_guard [OF g r] by (simp add: BUF_SIZE_def)
  show "BUF_SIZE + h \<in> set (get_read_indices (Suc h) 0 128)"
    by (simp add: get_read_indices_def BUF_SIZE_def)
  have g': "\<not> of_nat BUF_SIZE < (0xFFFFFFFF :: 32 word) + 1"
    by (simp add: BUF_SIZE_def)
  have r': "zms_read (zms_ref 1024) [1 \<mapsto> [0x41]] 1 BUF_SIZE = (1, [0x41])"
    by (simp add: zms_ref_def BUF_SIZE_def)
  show "storage_get_zfs h (zms_ref 1024) stack [1 \<mapsto> [0x41]] 1 0xFFFFFFFF 1 (Some out)
          = OutOfBounds"
    unfolding storage_get_zfs_after_guard [OF g' r'] offset_length_wrap
    by (simp add: BUF_SIZE_def)
  show "h + 4294967295 \<in> set (get_read_indices h 0xFFFFFFFF 1)"
    by (simp add: get_read_indices_def)
qed

section \<open>Reading back what set stored\<close>

lemma take_slot_bytes:
  assumes "length d = n"
  shows "take n (slot_bytes old d n) = d"
  using assms by (simp add: slot_bytes_def memcpy_def memset_at_def)

lemma slot_bytes_zero_tail:
  assumes "length d = n" "length old = STORAGE_MAX_ITEM_SIZE" "n \<le> STORAGE_MAX_ITEM_SIZE"
  shows "slot_bytes old d n = d @ replicate (STORAGE_MAX_ITEM_SIZE - n) 0"
  using assms by (simp add: slot_bytes_def memcpy_def memset_at_def)

lemma storage_set_success_slot:
  assumes len: "length tbl = STORAGE_MAX_ENTRIES"
    and ok: "fst (storage_set tbl u n (Some d)) = PSA_SUCCESS"
  obtains idx where "find_entry (snd (storage_set tbl u n (Some d))) u = Some idx"
    "size_e (snd (storage_set tbl u n (Some d)) ! idx) = n"
    "data (snd (storage_set tbl u n (Some d)) ! idx)
       = slot_bytes (data (tbl ! idx)) d (unat n)"
proof -
  from ok have n: "unat n \<le> STORAGE_MAX_ITEM_SIZE"
    by (auto simp: storage_set_def split: if_splits)
  let ?e = "\<lambda>idx. \<lparr>used = True, uid = u, size_e = n,
                      data = slot_bytes (data (tbl ! idx)) d (unat n)\<rparr>"
  have "\<exists>idx. storage_set tbl u n (Some d) = (PSA_SUCCESS, tbl[idx := ?e idx])
          \<and> idx < STORAGE_MAX_ENTRIES
          \<and> (\<forall>j<idx. \<not> (used (tbl ! j) \<and> uid (tbl ! j) = u))"
  proof (cases "find_entry tbl u")
    case (Some idx)
    then show ?thesis
      using storage_set_existing [OF Some n, of d] by (auto simp: find_entry_Some_iff)
  next
    case None
    with ok n obtain idx where f: "find_free_slot tbl = Some idx"
      by (cases "find_free_slot tbl") (auto simp: storage_set_def)
    then have "idx < STORAGE_MAX_ENTRIES" by (simp add: find_free_slot_Some_iff)
    moreover have "\<forall>j<idx. \<not> (used (tbl ! j) \<and> uid (tbl ! j) = u)"
      using None calculation by (simp add: find_entry_None_iff)
    ultimately show ?thesis
      using storage_set_fresh [OF None f n, of d] by auto
  qed
  then obtain idx where eq: "storage_set tbl u n (Some d) = (PSA_SUCCESS, tbl[idx := ?e idx])"
    and idx: "idx < STORAGE_MAX_ENTRIES"
    and before: "\<forall>j<idx. \<not> (used (tbl ! j) \<and> uid (tbl ! j) = u)"
    by blast
  have at: "tbl[idx := ?e idx] ! idx = ?e idx" using idx len by simp
  have "find_entry (tbl[idx := ?e idx]) u = Some idx"
    unfolding find_entry_Some_iff using idx at before by auto
  then show ?thesis
    using that [of idx] at unfolding eq snd_conv by simp
qed

lemma set_then_get:
  assumes len: "length tbl = STORAGE_MAX_ENTRIES" and d: "length d = unat n"
    and ok: "fst (storage_set tbl u n (Some d)) = PSA_SUCCESS"
  shows "storage_get (snd (storage_set tbl u n (Some d))) u off k (Some out) =
     (if n < off then (PSA_ERROR_INVALID_ARGUMENT, Some out)
      else (PSA_SUCCESS,
            Some (take (min (unat k) (length d - unat off)) (drop (unat off) d)
                  @ drop (min (unat k) (length d - unat off)) out)))"
proof -
  from len ok obtain idx where
    f: "find_entry (snd (storage_set tbl u n (Some d))) u = Some idx"
    and sz: "size_e (snd (storage_set tbl u n (Some d)) ! idx) = n"
    and dt: "data (snd (storage_set tbl u n (Some d)) ! idx)
       = slot_bytes (data (tbl ! idx)) d (unat n)"
    by (rule storage_set_success_slot)
  let ?m = "min (unat k) (length d - unat off)"
  have "take ?m (drop (unat off) (slot_bytes (data (tbl ! idx)) d (unat n)))
          = take ?m (drop (unat off) d)"
  proof -
    have "take ?m (drop (unat off) (slot_bytes (data (tbl ! idx)) d (unat n)))
        = take ?m (drop (unat off) (take (unat n) (slot_bytes (data (tbl ! idx)) d (unat n))))"
      using d by (simp add: drop_take min_def)
    then show ?thesis using d by (simp add: take_slot_bytes)
  qed
  then show ?thesis
    unfolding storage_get_found [OF f] sz dt using d by simp
qed

lemma set_then_get_whole:
  assumes len: "length tbl = STORAGE_MAX_ENTRIES" and d: "length d = unat n"
    and ok: "fst (storage_set tbl u n (Some d)) = PSA_SUCCESS"
  shows "storage_get (snd (storage_set tbl u n (Some d))) u 0 n (Some out) =
     (PSA_SUCCESS, Some (d @ drop (length d) out))"
  unfolding set_then_get [OF len d ok] using d by simp

lemma sint_nonneg_small:
  fixes rc :: "32 word"
  assumes "unat rc < 2 ^ 31"
  shows "\<not> sint rc < 0"
  using sint_of_nat_small [OF assms] by simp

lemma get_zfs_window:
  assumes r: "zms_read api fs u BUF_SIZE = (rc, d)" and rc: "unat rc = length d"
    and fit: "length d \<le> BUF_SIZE" and win: "h + unat off + unat len \<le> length d"
  shows "storage_get_zfs h api stack fs u off len (Some out) =
     Returns (PSA_SUCCESS, Some (take (unat len) (drop (h + unat off) d) @ drop (unat len) out))"
proof -
  have sum: "unat off + unat len \<le> length d" using win by simp
  then have s: "unat (off + len) = unat off + unat len"
    using fit by (simp add: unat_add_lem [THEN iffD1] BUF_SIZE_def)
  have g: "\<not> of_nat BUF_SIZE < off + len"
    using s sum fit by (simp add: word_less_nat_alt BUF_SIZE_def)
  have "unat rc < 2 ^ 31" using rc fit by (simp add: BUF_SIZE_def)
  then have pos: "\<not> sint rc < 0" by (rule sint_nonneg_small)
  have nlt: "\<not> rc < off + len" using s sum rc by (simp add: word_less_nat_alt)
  have inb: "\<not> (0 < unat len \<and> BUF_SIZE < h + unat off + unat len)"
    using win fit by simp
  have "take (unat len) (drop (h + unat off) (take BUF_SIZE (d @ drop (length d) stack)))
          = take (unat len) (drop (h + unat off) d)"
    using win fit by (simp add: drop_take)
  then show ?thesis
    unfolding storage_get_zfs_after_guard [OF g r] using pos nlt inb
    by (simp add: memcpy_def)
qed

lemma zfs_roundtrip_fails_any_header:
  "storage_get_zfs (Suc h) (zms_ref 1024) (replicate 128 0)
        (snd (storage_set_zfs (zms_ref 1024) Map.empty 0xA 10 (Some digits)))
        0xA 0 10 (Some [0, 0, 0, 0, 0, 0, 0, 0, 0, 0])
     \<noteq> Returns (PSA_SUCCESS, Some digits)"
proof -
  let ?buf = "take BUF_SIZE (digits @ drop (length digits) (replicate 128 0))"
  have g: "\<not> of_nat BUF_SIZE < (0 :: 32 word) + 10" by (simp add: BUF_SIZE_def)
  have r: "zms_read (zms_ref 1024) [0xA \<mapsto> digits] 0xA BUF_SIZE = (10, digits)"
    by (simp add: zms_ref_def BUF_SIZE_def digits_def)
  have buf: "?buf = digits @ replicate 118 0"
    by (simp add: BUF_SIZE_def digits_def)
  show ?thesis
  proof (cases "BUF_SIZE < Suc h + 10")
    case True
    then show ?thesis
      unfolding set_zfs_digits snd_conv storage_get_zfs_after_guard [OF g r] by simp
  next
    case False
    then have h: "Suc h + 10 \<le> 128" by (simp add: BUF_SIZE_def)
    have "hd (take 10 (drop (Suc h) (digits @ replicate 118 0)))
            = (digits @ replicate 118 0) ! Suc h"
      using h by (simp add: hd_drop_conv_nth digits_def)
    also have "\<dots> = (tl digits @ replicate 118 0) ! h"
      by (simp add: digits_def)
    also have "\<dots> \<in> set (tl digits @ replicate 118 0)"
      using h by (intro nth_mem) (simp add: digits_def)
    finally have ne: "hd (take 10 (drop (Suc h) (digits @ replicate 118 0))) \<noteq> 0x30"
      by (auto simp: digits_def)
    have hdd: "hd digits = 0x30" by (simp add: digits_def)
    have "take 10 (drop (Suc h) (digits @ replicate 118 0)) \<noteq> digits"
    proof (rule notI)
      assume e: "take 10 (drop (Suc h) (digits @ replicate 118 0)) = digits"
      from ne show False unfolding e hdd by simp
    qed
    with False show ?thesis
      unfolding set_zfs_digits snd_conv storage_get_zfs_after_guard [OF g r] buf
      by (simp add: memcpy_def)
  qed
qed

section \<open>Overwriting an object\<close>

lemma set_overwrite_stored_size_and_tail:
  assumes len: "length tbl = STORAGE_MAX_ENTRIES" and d: "length d = unat n"
    and ok: "fst (storage_set tbl u n (Some d)) = PSA_SUCCESS"
    and bufs: "\<forall>i<STORAGE_MAX_ENTRIES. length (data (tbl ! i)) = STORAGE_MAX_ITEM_SIZE"
  shows "\<exists>idx. find_entry (snd (storage_set tbl u n (Some d))) u = Some idx
     \<and> size_e (snd (storage_set tbl u n (Some d)) ! idx) = n
     \<and> data (snd (storage_set tbl u n (Some d)) ! idx)
         = d @ replicate (STORAGE_MAX_ITEM_SIZE - length d) 0"
proof -
  from len ok obtain idx where
    f: "find_entry (snd (storage_set tbl u n (Some d))) u = Some idx"
    and sz: "size_e (snd (storage_set tbl u n (Some d)) ! idx) = n"
    and dt: "data (snd (storage_set tbl u n (Some d)) ! idx)
       = slot_bytes (data (tbl ! idx)) d (unat n)"
    by (rule storage_set_success_slot)
  from f have "idx < STORAGE_MAX_ENTRIES" by (simp add: find_entry_Some_iff)
  with bufs have l: "length (data (tbl ! idx)) = STORAGE_MAX_ITEM_SIZE" by simp
  from ok have n: "unat n \<le> STORAGE_MAX_ITEM_SIZE"
    by (auto simp: storage_set_def split: if_splits)
  have "slot_bytes (data (tbl ! idx)) d (unat n)
          = d @ replicate (STORAGE_MAX_ITEM_SIZE - unat n) 0"
    using d l n by (rule slot_bytes_zero_tail)
  with f sz dt d show ?thesis by simp
qed

lemma set_abcd_over_digits:
  "storage_set (snd (storage_set (storage_init storage_table_zero) 0xA 10 (Some digits)))
      0xA 4 (Some [0x61, 0x62, 0x63, 0x64])
   = (PSA_SUCCESS,
      [\<lparr>used = True, uid = 0xA, size_e = 4,
        data = [0x61, 0x62, 0x63, 0x64] @ replicate 1020 0\<rparr>,
       free_entry, free_entry, free_entry, free_entry, free_entry, free_entry, free_entry])"
  unfolding set_digits snd_conv
  by (simp add: storage_set_def run_simps)

text \<open>
  C6 (the code departs from the claim). After \<^verbatim>\<open>set(0xA, 10, "0123456789")\<close> and the
  successful \<^verbatim>\<open>set(0xA, 4, "abcd")\<close>, \<^verbatim>\<open>get_info(0xA, out_info, 4)\<close> succeeds with
  \<open>out_info\<close> = \<^verbatim>\<open>"abcd"\<close>, the payload, and with \<open>info_size = 0\<close> it writes nothing:
  it does not report the new length 4. The rest of the claim holds: the stored size
  becomes the new length and the buffer's tail is zero
  (\<open>set_overwrite_stored_size_and_tail\<close>), and every later get returns bytes of the
  new payload only (\<open>set_then_get\<close>), here \<^verbatim>\<open>"abcd"\<close> for a request of ten bytes.
\<close>

theorem overwrite_get_info_copies_payload:
  "fst (storage_set (snd (storage_set (storage_init storage_table_zero) 0xA 10 (Some digits)))
          0xA 4 (Some [0x61, 0x62, 0x63, 0x64])) = PSA_SUCCESS
   \<and> storage_get_info
        (snd (storage_set
               (snd (storage_set (storage_init storage_table_zero) 0xA 10 (Some digits)))
               0xA 4 (Some [0x61, 0x62, 0x63, 0x64])))
        0xA (Some [0, 0, 0, 0]) 4
      = (PSA_SUCCESS, Some [0x61, 0x62, 0x63, 0x64])
   \<and> storage_get_info
        (snd (storage_set
               (snd (storage_set (storage_init storage_table_zero) 0xA 10 (Some digits)))
               0xA 4 (Some [0x61, 0x62, 0x63, 0x64])))
        0xA (Some [0, 0, 0, 0]) 0
      = (PSA_SUCCESS, Some [0, 0, 0, 0])
   \<and> storage_get
        (snd (storage_set
               (snd (storage_set (storage_init storage_table_zero) 0xA 10 (Some digits)))
               0xA 4 (Some [0x61, 0x62, 0x63, 0x64])))
        0xA 0 10 (Some [0, 0, 0, 0, 0, 0, 0, 0, 0, 0])
      = (PSA_SUCCESS, Some [0x61, 0x62, 0x63, 0x64, 0, 0, 0, 0, 0, 0])"
  unfolding set_abcd_over_digits fst_conv snd_conv
  by (simp add: storage_get_info_def storage_get_def run_simps)

section \<open>get in the Volatile Table Store clamps silently\<close>

lemma unique_uids_find_entry:
  assumes "unique_uids tbl" "i < STORAGE_MAX_ENTRIES" "used (tbl ! i)" "uid (tbl ! i) = u"
  shows "find_entry tbl u = Some i"
proof -
  from assms(2-4) obtain k where k: "k \<le> i" "find_entry tbl u = Some k"
    using find_entry_first by blast
  then have "k < STORAGE_MAX_ENTRIES" "used (tbl ! k)" "uid (tbl ! k) = u"
    by (simp_all add: find_entry_Some_iff)
  with assms have "k = i" unfolding unique_uids_def by blast
  with k show ?thesis by simp
qed

lemma set_two_objects:
  "storage_set (snd (storage_set (storage_init storage_table_zero) 0xB 3
                       (Some [0x78, 0x79, 0x7A])))
      0xA 10 (Some digits) =
     (PSA_SUCCESS,
      [\<lparr>used = True, uid = 0xB, size_e = 3, data = [0x78, 0x79, 0x7A] @ replicate 1021 0\<rparr>,
       \<lparr>used = True, uid = 0xA, size_e = 10, data = digits @ replicate 1014 0\<rparr>,
       free_entry, free_entry, free_entry, free_entry, free_entry, free_entry])"
  unfolding storage_init_zero replicate_8
  by (simp add: storage_set_def run_simps)

text \<open>
  C4. In the Volatile Table Store (a table with at most one slot per uid), for a uid
  stored in slot \<open>i\<close> with stored size \<open>S = size_e (tbl ! i)\<close>, get with a non-null
  \<open>out\<close> fails with InvalidArgument when \<open>offset > S\<close>; otherwise it returns success
  and \<open>out\<close> holds exactly \<open>min length (S - offset)\<close> bytes of that slot's payload from
  \<open>offset\<close> on, followed by what \<open>out\<close> held before, even when that is fewer bytes
  than requested. The witness runs the scenario of the specification on a table that
  also holds another object in the slot before: \<^verbatim>\<open>get(0xA, 3, 4)\<close> copies \<^verbatim>\<open>"3456"\<close> and
  \<^verbatim>\<open>get(0xA, 8, 10)\<close> copies only \<^verbatim>\<open>"89"\<close>.
\<close>

theorem storage_get_clamps:
  assumes "unique_uids tbl" "i < STORAGE_MAX_ENTRIES" "used (tbl ! i)"
    "uid (tbl ! i) = obj_uid"
  shows "storage_get tbl obj_uid obj_offset obj_length (Some out) =
     (if size_e (tbl ! i) < obj_offset then (PSA_ERROR_INVALID_ARGUMENT, Some out)
      else (PSA_SUCCESS,
            Some (take (min (unat obj_length) (unat (size_e (tbl ! i)) - unat obj_offset))
                    (drop (unat obj_offset) (data (tbl ! i)))
                  @ drop (min (unat obj_length) (unat (size_e (tbl ! i)) - unat obj_offset))
                      out)))"
  by (rule storage_get_found [OF unique_uids_find_entry [OF assms]])

theorem storage_get_clamps_witness:
  "storage_get
     (snd (storage_set (snd (storage_set (storage_init storage_table_zero) 0xB 3
                               (Some [0x78, 0x79, 0x7A])))
             0xA 10 (Some digits)))
     0xA 3 4 (Some [0, 0, 0, 0, 0, 0, 0, 0, 0, 0])
     = (PSA_SUCCESS, Some [0x33, 0x34, 0x35, 0x36, 0, 0, 0, 0, 0, 0])
   \<and> storage_get
     (snd (storage_set (snd (storage_set (storage_init storage_table_zero) 0xB 3
                               (Some [0x78, 0x79, 0x7A])))
             0xA 10 (Some digits)))
     0xA 8 10 (Some [0, 0, 0, 0, 0, 0, 0, 0, 0, 0])
     = (PSA_SUCCESS, Some [0x38, 0x39, 0, 0, 0, 0, 0, 0, 0, 0])
   \<and> storage_get
     (snd (storage_set (snd (storage_set (storage_init storage_table_zero) 0xB 3
                               (Some [0x78, 0x79, 0x7A])))
             0xA 10 (Some digits)))
     0xA 11 1 (Some [0, 0, 0, 0, 0, 0, 0, 0, 0, 0])
     = (PSA_ERROR_INVALID_ARGUMENT, Some [0, 0, 0, 0, 0, 0, 0, 0, 0, 0])
   \<and> storage_get
     (snd (storage_set (snd (storage_set (storage_init storage_table_zero) 0xB 3
                               (Some [0x78, 0x79, 0x7A])))
             0xA 10 (Some digits)))
     0xB 1 4 (Some [0, 0, 0, 0, 0, 0, 0, 0, 0, 0])
     = (PSA_SUCCESS, Some [0x79, 0x7A, 0, 0, 0, 0, 0, 0, 0, 0])
   \<and> storage_get (snd (storage_set (storage_init storage_table_zero) 0xA 10 (Some digits)))
     0xA 3 4 (Some [0, 0, 0, 0, 0, 0, 0, 0, 0, 0])
     = (PSA_SUCCESS, Some [0x33, 0x34, 0x35, 0x36, 0, 0, 0, 0, 0, 0])"
proof -
  let ?t1 = "snd (storage_set (storage_init storage_table_zero) 0xB 3
                    (Some [0x78, 0x79, 0x7A]))"
  let ?tbl = "snd (storage_set ?t1 0xA 10 (Some digits))"
  let ?one = "snd (storage_set (storage_init storage_table_zero) 0xA 10 (Some digits))"
  let ?out = "[0, 0, 0, 0, 0, 0, 0, 0, 0, 0] :: byte list"
  have l1: "length ?t1 = STORAGE_MAX_ENTRIES"
    by (simp add: length_storage_set length_storage_init)
  have u1: "unique_uids ?t1"
    by (rule unique_uids_set [OF length_storage_init unique_uids_init])
  have uniq: "unique_uids ?tbl" by (rule unique_uids_set [OF l1 u1])
  have uniq1: "unique_uids ?one"
    by (rule unique_uids_set [OF length_storage_init unique_uids_init])
  have i0: "(0 :: nat) < STORAGE_MAX_ENTRIES" and i1: "(1 :: nat) < STORAGE_MAX_ENTRIES"
    by (simp_all add: STORAGE_MAX_ENTRIES_def)
  have s1: "used (?tbl ! 1)" "uid (?tbl ! 1) = 0xA" "size_e (?tbl ! 1) = 10"
    "data (?tbl ! 1) = digits @ replicate 1014 0"
    unfolding set_two_objects snd_conv by simp_all
  have s0: "used (?tbl ! 0)" "uid (?tbl ! 0) = 0xB" "size_e (?tbl ! 0) = 3"
    "data (?tbl ! 0) = [0x78, 0x79, 0x7A] @ replicate 1021 0"
    unfolding set_two_objects snd_conv by simp_all
  have o0: "used (?one ! 0)" "uid (?one ! 0) = 0xA" "size_e (?one ! 0) = 10"
    "data (?one ! 0) = digits @ replicate 1014 0"
    unfolding set_digits snd_conv by simp_all
  note ga = storage_get_clamps [OF uniq i1 s1(1,2)]
  note gb = storage_get_clamps [OF uniq i0 s0(1,2)]
  note gc = storage_get_clamps [OF uniq1 i0 o0(1,2)]
  have a: "storage_get ?tbl 0xA 3 4 (Some ?out)
             = (PSA_SUCCESS, Some [0x33, 0x34, 0x35, 0x36, 0, 0, 0, 0, 0, 0])"
    unfolding ga [of 3 4 ?out] s1 by (simp add: digits_def)
  have b: "storage_get ?tbl 0xA 8 10 (Some ?out)
             = (PSA_SUCCESS, Some [0x38, 0x39, 0, 0, 0, 0, 0, 0, 0, 0])"
    unfolding ga [of 8 10 ?out] s1 by (simp add: digits_def)
  have c: "storage_get ?tbl 0xA 11 1 (Some ?out) = (PSA_ERROR_INVALID_ARGUMENT, Some ?out)"
    unfolding ga [of 11 1 ?out] s1 by simp
  have d: "storage_get ?tbl 0xB 1 4 (Some ?out)
             = (PSA_SUCCESS, Some [0x79, 0x7A, 0, 0, 0, 0, 0, 0, 0, 0])"
    unfolding gb [of 1 4 ?out] s0 by simp
  have e: "storage_get ?one 0xA 3 4 (Some ?out)
             = (PSA_SUCCESS, Some [0x33, 0x34, 0x35, 0x36, 0, 0, 0, 0, 0, 0])"
    unfolding gc [of 3 4 ?out] o0 by (simp add: digits_def)
  show ?thesis by (intro conjI a b c d e)
qed

section \<open>A failing set\<close>

lemma storage_set_zfs_after_write:
  assumes "\<not> STORAGE_MAX_ITEM_SIZE < unat m"
  shows "storage_set_zfs api fs y m (Some src) =
     (if sint (fst (zms_write api fs y (take (unat m) src))) < 0
         \<or> fst (zms_write api fs y (take (unat m) src)) < m
      then PSA_ERROR_IO_ERROR else PSA_SUCCESS,
      snd (zms_write api fs y (take (unat m) src)))"
  using assms
  by (cases "zms_write api fs y (take (unat m) src)") (simp add: storage_set_zfs_def)

lemma storage_set_zfs_before_write:
  assumes "fst (storage_set_zfs api fs y m q) = PSA_ERROR_INVALID_ARGUMENT
           \<or> fst (storage_set_zfs api fs y m q) = PSA_ERROR_INSUFFICIENT_STORAGE"
  shows "snd (storage_set_zfs api fs y m q) = fs"
proof (cases q)
  case None
  then show ?thesis by (simp add: storage_set_zfs_def)
next
  case (Some src)
  show ?thesis
  proof (cases "STORAGE_MAX_ITEM_SIZE < unat m")
    case True
    with Some show ?thesis by (simp add: storage_set_zfs_def)
  next
    case False
    with assms Some show ?thesis
      unfolding Some storage_set_zfs_after_write [OF False] by (simp split: if_splits)
  qed
qed

lemma storage_set_zfs_io_error:
  assumes "fst (storage_set_zfs api fs y m (Some src)) = PSA_ERROR_IO_ERROR"
  shows "snd (storage_set_zfs api fs y m (Some src))
           = snd (zms_write api fs y (take (unat m) src))
         \<and> (sint (fst (zms_write api fs y (take (unat m) src))) < 0
              \<or> fst (zms_write api fs y (take (unat m) src)) < m)"
proof (cases "STORAGE_MAX_ITEM_SIZE < unat m")
  case True
  with assms show ?thesis by (simp add: storage_set_zfs_def)
next
  case False
  with assms show ?thesis
    unfolding storage_set_zfs_after_write [OF False] by (simp split: if_splits)
qed

lemma set_trunc_digits:
  "storage_set_zfs (zms_trunc 4) [0xA \<mapsto> [1, 2]] 0xA 10 (Some digits)
     = (PSA_ERROR_IO_ERROR, [0xA \<mapsto> [0x30, 0x31, 0x32, 0x33]])"
  by (simp add: storage_set_zfs_def zms_trunc_def run_simps)

text \<open>
  C8 (amended). In the Volatile Table Store, whenever set returns an error the table is
  unchanged: every error return precedes the first write. In the Persistent Log Store,
  whenever set returns InvalidArgument or InsufficientStorage the log is unchanged,
  since \<^verbatim>\<open>storage_set\<close> returns before calling the log; when it returns IOError,
  \<open>zms_write\<close> has reported an error or a short count and the log is in the state
  that \<open>zms_write\<close> left it in: \<^verbatim>\<open>storage_set\<close> makes no change of its own and undoes
  nothing.

  The claim as stated fails in the Persistent Log Store: over a log that stores the
  four bytes that fit and reports the short count, \<^verbatim>\<open>set(0xA, 10, "0123456789")\<close> on a
  log holding the bytes 1, 2 under \<open>0xA\<close> returns IOError, and get\_info then reads
  \<^verbatim>\<open>"01"\<close> where it read 1, 2 before. Over a log whose failed writes change nothing
  the prior object stays (\<open>storage_set_zfs_error_keeps_log\<close>).
\<close>

theorem failed_set_keeps_state:
  "(fst (storage_set tbl x n p) \<noteq> PSA_SUCCESS \<longrightarrow> snd (storage_set tbl x n p) = tbl)
   \<and> (fst (storage_set_zfs api fs y m q) = PSA_ERROR_INVALID_ARGUMENT
        \<or> fst (storage_set_zfs api fs y m q) = PSA_ERROR_INSUFFICIENT_STORAGE
      \<longrightarrow> snd (storage_set_zfs api fs y m q) = fs)
   \<and> (fst (storage_set_zfs api fs y m (Some src)) = PSA_ERROR_IO_ERROR
      \<longrightarrow> snd (storage_set_zfs api fs y m (Some src))
            = snd (zms_write api fs y (take (unat m) src))
          \<and> (sint (fst (zms_write api fs y (take (unat m) src))) < 0
               \<or> fst (zms_write api fs y (take (unat m) src)) < m))"
  using storage_set_error_keeps_table [of tbl x n p]
    storage_set_zfs_before_write [of api fs y m q]
    storage_set_zfs_io_error [of api fs y m src]
  by blast

theorem zfs_failed_set_counterexample:
  "storage_get_info_zfs (zms_trunc 4) [0xA \<mapsto> [1, 2]] 0xA (Some [0, 0]) 2
     = (PSA_SUCCESS, Some [1, 2])
   \<and> fst (storage_set_zfs (zms_trunc 4) [0xA \<mapsto> [1, 2]] 0xA 10 (Some digits))
     = PSA_ERROR_IO_ERROR
   \<and> storage_get_info_zfs (zms_trunc 4)
        (snd (storage_set_zfs (zms_trunc 4) [0xA \<mapsto> [1, 2]] 0xA 10 (Some digits)))
        0xA (Some [0, 0]) 2
     = (PSA_SUCCESS, Some [0x30, 0x31])"
  unfolding set_trunc_digits fst_conv snd_conv
  by (simp add: storage_get_info_zfs_def zms_trunc_def)

theorem failed_set_keeps_state_witness:
  "fst (storage_set (snd (storage_set (storage_init storage_table_zero) 0xA 10 (Some digits)))
          0xA 2000 (Some digits)) \<noteq> PSA_SUCCESS
   \<and> snd (storage_set (snd (storage_set (storage_init storage_table_zero) 0xA 10 (Some digits)))
          0xA 2000 (Some digits))
       = snd (storage_set (storage_init storage_table_zero) 0xA 10 (Some digits))
   \<and> fst (storage_set_zfs (zms_trunc 4) [0xA \<mapsto> [1, 2]] 0xA 2000 (Some digits))
       = PSA_ERROR_INSUFFICIENT_STORAGE
   \<and> snd (storage_set_zfs (zms_trunc 4) [0xA \<mapsto> [1, 2]] 0xA 2000 (Some digits))
       = [0xA \<mapsto> [1, 2]]
   \<and> fst (storage_set_zfs (zms_trunc 4) [0xA \<mapsto> [1, 2]] 0xA 10 (Some digits))
       = PSA_ERROR_IO_ERROR
   \<and> snd (storage_set_zfs (zms_trunc 4) [0xA \<mapsto> [1, 2]] 0xA 10 (Some digits))
       = snd (zms_write (zms_trunc 4) [0xA \<mapsto> [1, 2]] 0xA (take (unat (10 :: 32 word)) digits))"
proof -
  let ?tbl = "snd (storage_set (storage_init storage_table_zero) 0xA 10 (Some digits))"
  let ?log = "[0xA \<mapsto> [1, 2]] :: zms_log"
  have a: "fst (storage_set ?tbl 0xA 2000 (Some digits)) \<noteq> PSA_SUCCESS"
    by (simp add: storage_set_def STORAGE_MAX_ITEM_SIZE_def)
  have b: "fst (storage_set_zfs (zms_trunc 4) ?log 0xA 2000 (Some digits))
             = PSA_ERROR_INSUFFICIENT_STORAGE"
    by (simp add: storage_set_zfs_def STORAGE_MAX_ITEM_SIZE_def)
  have c: "fst (storage_set_zfs (zms_trunc 4) ?log 0xA 10 (Some digits)) = PSA_ERROR_IO_ERROR"
    by (simp add: set_trunc_digits)
  note t1 = failed_set_keeps_state
    [of ?tbl "0xA" 2000 "Some digits" "zms_trunc 4" ?log "0xA" 2000 "Some digits" digits]
  note t2 = failed_set_keeps_state
    [of ?tbl "0xA" 2000 "Some digits" "zms_trunc 4" ?log "0xA" 10 "Some digits" digits]
  have r1: "snd (storage_set ?tbl 0xA 2000 (Some digits)) = ?tbl"
    by (rule t1 [THEN conjunct1, rule_format, OF a])
  have r2: "snd (storage_set_zfs (zms_trunc 4) ?log 0xA 2000 (Some digits)) = ?log"
    by (rule t1 [THEN conjunct2, THEN conjunct1, rule_format, OF disjI2 [OF b]])
  have r3: "snd (storage_set_zfs (zms_trunc 4) ?log 0xA 10 (Some digits))
       = snd (zms_write (zms_trunc 4) ?log 0xA (take (unat (10 :: 32 word)) digits))"
    by (rule t2 [THEN conjunct2, THEN conjunct2, rule_format, OF c, THEN conjunct1])
  show ?thesis by (intro conjI a r1 b r2 c r3)
qed

section \<open>Absent uids\<close>

lemma storage_get_info_zfs_found:
  "storage_get_info_zfs api fs u (Some out) n =
     (if sint (fst (zms_read api fs u (unat n))) < 0
         \<or> fst (zms_read api fs u (unat n)) < n
      then PSA_ERROR_IO_ERROR else PSA_SUCCESS,
      Some (snd (zms_read api fs u (unat n))
            @ drop (length (snd (zms_read api fs u (unat n)))) out))"
  by (cases "zms_read api fs u (unat n)") (simp add: storage_get_info_zfs_def Let_def)

lemma storage_remove_zfs_result:
  "storage_remove_zfs api fs u sz =
     (if sint (fst (zms_delete api fs u)) < 0 then PSA_ERROR_IO_ERROR else PSA_SUCCESS,
      snd (zms_delete api fs u))"
  by (cases "zms_delete api fs u") (simp add: storage_remove_zfs_def)

lemma storage_get_zfs_guard:
  assumes "of_nat BUF_SIZE < off + len"
  shows "storage_get_zfs h api stack fs u off len (Some out)
           = Returns (PSA_ERROR_INVALID_ARGUMENT, Some out)"
  using assms by (simp add: storage_get_zfs_def)

lemma storage_get_zfs_log_failure:
  assumes g: "\<not> of_nat BUF_SIZE < off + len"
    and f: "sint (fst (zms_read api fs u BUF_SIZE)) < 0
            \<or> fst (zms_read api fs u BUF_SIZE) < off + len"
  shows "storage_get_zfs h api stack fs u off len (Some out)
           = Returns (PSA_ERROR_IO_ERROR, Some out)"
proof -
  obtain rc bs where r: "zms_read api fs u BUF_SIZE = (rc, bs)"
    by (cases "zms_read api fs u BUF_SIZE")
  from f show ?thesis
    unfolding storage_get_zfs_after_guard [OF g r] r fst_conv by simp
qed

text \<open>
  C2 (amended). In the Volatile Table Store, for a uid that no used slot carries (never
  written, or removed), get with a non-null \<open>out\<close>, get\_info and remove each fail
  with DoesNotExist, and on a table with at most one slot per uid two removes in a row
  of a stored uid yield success, then DoesNotExist. In the Persistent Log Store no
  operation ever returns DoesNotExist; an absent uid is reported as the backing log
  reports it: remove returns IOError when \<open>zms_delete\<close> reports a negative code and
  success otherwise; get\_info with a non-null \<open>out_info\<close> returns IOError when
  \<open>zms_read\<close> reports a negative code or fewer bytes than \<open>info_size\<close>, and success
  otherwise; get with a non-null \<open>out\<close> returns InvalidArgument when the 32-bit sum
  \<open>offset + length\<close> exceeds 128, and otherwise IOError when \<open>zms_read\<close> reports a
  negative code or fewer bytes than that sum; a null \<open>out\<close> or \<open>out_info\<close> gives
  InvalidArgument.

  The claim as stated fails: on an empty log get\_info and get of uid \<open>0xB\<close> return
  IOError, remove does not return DoesNotExist, and in the Volatile Table Store get of
  an absent uid with a null \<open>out\<close> returns InvalidArgument.
\<close>

theorem absent_uid_outcomes:
  "(\<not> stored tbl u \<longrightarrow>
      storage_get tbl u off len (Some out) = (PSA_ERROR_DOES_NOT_EXIST, Some out)
    \<and> storage_get_info tbl u p n = (PSA_ERROR_DOES_NOT_EXIST, p)
    \<and> storage_remove tbl u sz = (PSA_ERROR_DOES_NOT_EXIST, tbl))
   \<and> (length tbl = STORAGE_MAX_ENTRIES \<and> unique_uids tbl \<and> stored tbl u \<longrightarrow>
        fst (storage_remove tbl u s1) = PSA_SUCCESS
      \<and> fst (storage_remove (snd (storage_remove tbl u s1)) u s2)
          = PSA_ERROR_DOES_NOT_EXIST)
   \<and> (\<forall>r. storage_get_zfs hdr api stack fs u off len q
            \<noteq> Returns (PSA_ERROR_DOES_NOT_EXIST, r))
   \<and> fst (storage_get_info_zfs api fs u p n) \<noteq> PSA_ERROR_DOES_NOT_EXIST
   \<and> fst (storage_remove_zfs api fs u sz) \<noteq> PSA_ERROR_DOES_NOT_EXIST
   \<and> storage_get_zfs hdr api stack fs u off len None
        = Returns (PSA_ERROR_INVALID_ARGUMENT, None)
   \<and> (of_nat BUF_SIZE < off + len \<longrightarrow>
        storage_get_zfs hdr api stack fs u off len (Some out)
          = Returns (PSA_ERROR_INVALID_ARGUMENT, Some out))
   \<and> (\<not> of_nat BUF_SIZE < off + len
        \<and> (sint (fst (zms_read api fs u BUF_SIZE)) < 0
             \<or> fst (zms_read api fs u BUF_SIZE) < off + len) \<longrightarrow>
        storage_get_zfs hdr api stack fs u off len (Some out)
          = Returns (PSA_ERROR_IO_ERROR, Some out))
   \<and> storage_get_info_zfs api fs u None n = (PSA_ERROR_INVALID_ARGUMENT, None)
   \<and> fst (storage_get_info_zfs api fs u (Some out) n)
        = (if sint (fst (zms_read api fs u (unat n))) < 0
              \<or> fst (zms_read api fs u (unat n)) < n
           then PSA_ERROR_IO_ERROR else PSA_SUCCESS)
   \<and> fst (storage_remove_zfs api fs u sz)
        = (if sint (fst (zms_delete api fs u)) < 0
           then PSA_ERROR_IO_ERROR else PSA_SUCCESS)"
proof (intro conjI impI allI)
  assume ns: "\<not> stored tbl u"
  then have f: "find_entry tbl u = None" by (simp add: find_entry_None_stored)
  show "storage_get tbl u off len (Some out) = (PSA_ERROR_DOES_NOT_EXIST, Some out)"
    using f by (simp add: storage_get_def)
  show "storage_get_info tbl u p n = (PSA_ERROR_DOES_NOT_EXIST, p)"
    using f by (simp add: storage_get_info_def)
  show "storage_remove tbl u sz = (PSA_ERROR_DOES_NOT_EXIST, tbl)"
    using ns by (rule storage_remove_not_stored)
next
  assume h: "length tbl = STORAGE_MAX_ENTRIES \<and> unique_uids tbl \<and> stored tbl u"
  then obtain k where k: "find_entry tbl u = Some k" by (blast elim: stored_find_entry)
  show "fst (storage_remove tbl u s1) = PSA_SUCCESS"
    by (simp add: storage_remove_stored [OF k])
  from h have "\<not> stored (snd (storage_remove tbl u s1)) u"
    by (simp add: not_stored_after_remove)
  then show "fst (storage_remove (snd (storage_remove tbl u s1)) u s2)
          = PSA_ERROR_DOES_NOT_EXIST"
    by (simp add: storage_remove_not_stored)
next
  fix r
  show "storage_get_zfs hdr api stack fs u off len q
            \<noteq> Returns (PSA_ERROR_DOES_NOT_EXIST, r)"
    using storage_get_zfs_status [of hdr api stack fs u off len q] by auto
next
  show "fst (storage_get_info_zfs api fs u p n) \<noteq> PSA_ERROR_DOES_NOT_EXIST"
    using storage_get_info_zfs_status [of api fs u p n] by auto
next
  show "fst (storage_remove_zfs api fs u sz) \<noteq> PSA_ERROR_DOES_NOT_EXIST"
    using storage_remove_zfs_status [of api fs u sz] by auto
next
  show "storage_get_zfs hdr api stack fs u off len None
        = Returns (PSA_ERROR_INVALID_ARGUMENT, None)"
    by (simp add: storage_get_zfs_def)
next
  assume "of_nat BUF_SIZE < off + len"
  then show "storage_get_zfs hdr api stack fs u off len (Some out)
          = Returns (PSA_ERROR_INVALID_ARGUMENT, Some out)"
    by (rule storage_get_zfs_guard)
next
  assume a: "\<not> of_nat BUF_SIZE < off + len
        \<and> (sint (fst (zms_read api fs u BUF_SIZE)) < 0
             \<or> fst (zms_read api fs u BUF_SIZE) < off + len)"
  show "storage_get_zfs hdr api stack fs u off len (Some out)
          = Returns (PSA_ERROR_IO_ERROR, Some out)"
    by (rule storage_get_zfs_log_failure [OF a [THEN conjunct1] a [THEN conjunct2]])
next
  show "storage_get_info_zfs api fs u None n = (PSA_ERROR_INVALID_ARGUMENT, None)"
    by (simp add: storage_get_info_zfs_def)
next
  show "fst (storage_get_info_zfs api fs u (Some out) n)
        = (if sint (fst (zms_read api fs u (unat n))) < 0
              \<or> fst (zms_read api fs u (unat n)) < n
           then PSA_ERROR_IO_ERROR else PSA_SUCCESS)"
    by (simp add: storage_get_info_zfs_found)
next
  show "fst (storage_remove_zfs api fs u sz)
        = (if sint (fst (zms_delete api fs u)) < 0
           then PSA_ERROR_IO_ERROR else PSA_SUCCESS)"
    by (simp add: storage_remove_zfs_result)
qed

theorem zfs_absent_uid_counterexample:
  "storage_get_info_zfs (zms_ref 1024) Map.empty 0xB (Some [0, 0, 0, 0]) 4
     = (PSA_ERROR_IO_ERROR, Some [0, 0, 0, 0])
   \<and> storage_get_zfs 8 (zms_ref 1024) (replicate 128 0) Map.empty 0xB 0 4 (Some [0, 0, 0, 0])
     = Returns (PSA_ERROR_IO_ERROR, Some [0, 0, 0, 0])
   \<and> fst (storage_remove_zfs (zms_ref 1024) Map.empty 0xB 0) \<noteq> PSA_ERROR_DOES_NOT_EXIST
   \<and> storage_get (storage_init storage_table_zero) 0xB 0 4 None
     = (PSA_ERROR_INVALID_ARGUMENT, None)"
  by (simp add: storage_get_info_zfs_def storage_get_zfs_def storage_remove_zfs_def
      storage_get_def zms_ref_def BUF_SIZE_def)

theorem absent_uid_outcomes_witness:
  "\<not> stored (snd (storage_set (storage_init storage_table_zero) 0xA 10 (Some digits))) 0xB
   \<and> storage_get (snd (storage_set (storage_init storage_table_zero) 0xA 10 (Some digits)))
        0xB 0 4 (Some [0, 0, 0, 0]) = (PSA_ERROR_DOES_NOT_EXIST, Some [0, 0, 0, 0])
   \<and> storage_get_info (snd (storage_set (storage_init storage_table_zero) 0xA 10 (Some digits)))
        0xB (Some [0, 0, 0, 0]) 4 = (PSA_ERROR_DOES_NOT_EXIST, Some [0, 0, 0, 0])
   \<and> storage_remove (snd (storage_set (storage_init storage_table_zero) 0xA 10 (Some digits)))
        0xB 0
      = (PSA_ERROR_DOES_NOT_EXIST,
         snd (storage_set (storage_init storage_table_zero) 0xA 10 (Some digits)))
   \<and> length (snd (storage_set (storage_init storage_table_zero) 0xA 10 (Some digits)))
      = STORAGE_MAX_ENTRIES
   \<and> unique_uids (snd (storage_set (storage_init storage_table_zero) 0xA 10 (Some digits)))
   \<and> stored (snd (storage_set (storage_init storage_table_zero) 0xA 10 (Some digits))) 0xA
   \<and> fst (storage_remove
             (snd (storage_set (storage_init storage_table_zero) 0xA 10 (Some digits)))
             0xA 10) = PSA_SUCCESS
   \<and> fst (storage_remove
             (snd (storage_remove
                    (snd (storage_set (storage_init storage_table_zero) 0xA 10 (Some digits)))
                    0xA 10))
             0xA 10) = PSA_ERROR_DOES_NOT_EXIST
   \<and> sint (fst (zms_read (zms_ref 1024) Map.empty 0xB BUF_SIZE)) < 0
   \<and> storage_get_zfs 8 (zms_ref 1024) (replicate 128 0) Map.empty 0xB 0 4 (Some [0, 0, 0, 0])
      = Returns (PSA_ERROR_IO_ERROR, Some [0, 0, 0, 0])
   \<and> storage_get_zfs 8 (zms_ref 1024) (replicate 128 0) Map.empty 0xB 100 29
        (Some [0, 0, 0, 0])
      = Returns (PSA_ERROR_INVALID_ARGUMENT, Some [0, 0, 0, 0])"
proof -
  let ?tbl = "snd (storage_set (storage_init storage_table_zero) 0xA 10 (Some digits))"
  let ?o = "[0, 0, 0, 0] :: byte list"
  have ns: "\<not> stored ?tbl 0xB"
    by (rule not_stored_after_set_other [OF length_storage_init not_stored_init]) simp
  have len: "length ?tbl = STORAGE_MAX_ENTRIES"
    by (simp add: length_storage_set length_storage_init)
  have uniq: "unique_uids ?tbl"
    by (rule unique_uids_set [OF length_storage_init unique_uids_init])
  have "used (?tbl ! 0) \<and> uid (?tbl ! 0) = 0xA"
    unfolding set_digits snd_conv by simp
  then have st: "stored ?tbl 0xA"
    unfolding stored_def STORAGE_MAX_ENTRIES_def by (intro exI [of _ 0]) simp
  have neg: "sint (fst (zms_read (zms_ref 1024) Map.empty 0xB BUF_SIZE)) < 0"
    by (simp add: zms_ref_def)
  have g1: "\<not> of_nat BUF_SIZE < (0 :: 32 word) + 4" by (simp add: BUF_SIZE_def)
  have g2: "of_nat BUF_SIZE < (100 :: 32 word) + 29" by (simp add: BUF_SIZE_def)
  note t = absent_uid_outcomes
    [of ?tbl _ _ _ ?o "Some ?o" 4 0 10 10 8 "zms_ref 1024" "replicate 128 0" Map.empty
        "Some ?o"]
  note a = t [of "0xB" 0 4, THEN conjunct1, rule_format, OF ns]
  note b = t [of "0xA" 0 4, THEN conjunct2, THEN conjunct1, rule_format,
      OF conjI [OF len conjI [OF uniq st]]]
  note z = t [of "0xB", THEN conjunct2, THEN conjunct2, THEN conjunct2, THEN conjunct2,
      THEN conjunct2, THEN conjunct2]
  have c: "storage_get_zfs 8 (zms_ref 1024) (replicate 128 0) Map.empty 0xB 0 4 (Some ?o)
      = Returns (PSA_ERROR_IO_ERROR, Some ?o)"
    by (rule z [of 0 4, THEN conjunct2, THEN conjunct1, rule_format,
        OF conjI [OF g1 disjI1 [OF neg]]])
  have d: "storage_get_zfs 8 (zms_ref 1024) (replicate 128 0) Map.empty 0xB 100 29 (Some ?o)
      = Returns (PSA_ERROR_INVALID_ARGUMENT, Some ?o)"
    by (rule z [of 100 29, THEN conjunct1, rule_format, OF g2])
  show ?thesis
    by (intro conjI ns a [THEN conjunct1] a [THEN conjunct2, THEN conjunct1]
        a [THEN conjunct2, THEN conjunct2] len uniq st b [THEN conjunct1]
        b [THEN conjunct2] neg c d)
qed

section \<open>The round trip through set and get\<close>

lemma zms_ref_read_after_write:
  assumes "limit < 2 ^ 31"
  shows "zms_read_after_write (zms_ref limit)"
  unfolding zms_read_after_write_def
proof (intro allI impI)
  fix fs :: zms_log and k d n
  assume ok: "\<not> sint (fst (zms_write (zms_ref limit) fs k d)) < 0
          \<and> length d \<le> unat (fst (zms_write (zms_ref limit) fs k d))"
  have "\<not> limit < length d"
  proof
    assume "limit < length d"
    then have "fst (zms_write (zms_ref limit) fs k d) = - 22" by (simp add: zms_ref_def)
    with ok show False by simp
  qed
  then show "zms_read (zms_ref limit) (snd (zms_write (zms_ref limit) fs k d)) k n
              = (of_nat (min n (length d)), take n d)"
    by (simp add: zms_ref_def)
qed

lemma set_zfs_then_get_window:
  assumes raw: "zms_read_after_write api"
    and ok: "fst (storage_set_zfs api fs u n (Some d)) = PSA_SUCCESS"
    and d: "length d = unat n" and fit: "length d \<le> BUF_SIZE"
    and win: "h + unat off + unat len \<le> length d"
  shows "storage_get_zfs h api stack (snd (storage_set_zfs api fs u n (Some d))) u off len
            (Some out)
          = Returns (PSA_SUCCESS,
              Some (take (unat len) (drop (h + unat off) d) @ drop (unat len) out))"
proof -
  have small: "\<not> STORAGE_MAX_ITEM_SIZE < unat n"
    using d fit by (simp add: BUF_SIZE_def STORAGE_MAX_ITEM_SIZE_def)
  have td: "take (unat n) d = d" using d by simp
  let ?w = "zms_write api fs u d"
  have res: "storage_set_zfs api fs u n (Some d) =
     (if sint (fst ?w) < 0 \<or> fst ?w < n then PSA_ERROR_IO_ERROR else PSA_SUCCESS, snd ?w)"
    using storage_set_zfs_after_write [OF small, of api fs u d] unfolding td .
  from ok have good: "\<not> sint (fst ?w) < 0" "\<not> fst ?w < n"
    unfolding res by (simp_all split: if_splits)
  then have "length d \<le> unat (fst ?w)"
    using d by (simp add: word_less_nat_alt)
  with good(1) raw have rd: "zms_read api (snd ?w) u BUF_SIZE
       = (of_nat (min BUF_SIZE (length d)), take BUF_SIZE d)"
    unfolding zms_read_after_write_def by blast
  have m: "min BUF_SIZE (length d) = length d" and t: "take BUF_SIZE d = d"
    using fit by simp_all
  have r: "zms_read api (snd ?w) u BUF_SIZE = (of_nat (length d), d)"
    using rd unfolding m t .
  have "length d < 2 ^ 31" using fit by (simp add: BUF_SIZE_def)
  then have rc: "unat (word_of_nat (length d) :: 32 word) = length d"
    by (rule unat_of_nat_small)
  have st: "snd (storage_set_zfs api fs u n (Some d)) = snd ?w"
    unfolding res by simp
  show ?thesis
    unfolding st by (rule get_zfs_window [OF r rc fit win])
qed

text \<open>
  C5 (amended). Round-trip holds in the Volatile Table Store: after a successful
  \<^verbatim>\<open>set(uid, len(data), data)\<close>, \<^verbatim>\<open>get(uid, 0, len(data), out)\<close> succeeds and \<open>out\<close>
  starts with \<open>data\<close>. In the Persistent Log Store get skips the first
  \<^verbatim>\<open>sizeof(its_obj_info_t)\<close> bytes of the record: over a backing log that reads back
  what it wrote, after a successful \<^verbatim>\<open>set(uid, len(data), data)\<close> of at most 128 bytes,
  \<^verbatim>\<open>get(uid, offset, length, out)\<close> with \<open>h + offset + length \<le> len(data)\<close> succeeds and
  copies \<open>data[h + offset ..< h + offset + length]\<close>, where \<open>h\<close> is the header size.

  The claim as stated fails in the Persistent Log Store: with an 8-byte header,
  \<^verbatim>\<open>set(0xA, 10, "0123456789")\<close> then \<^verbatim>\<open>get(0xA, 0, 10, out)\<close> succeeds with \<open>out\<close> =
  \<^verbatim>\<open>"89"\<close> followed by eight bytes of the uninitialised buffer (and by
  \<open>zfs_roundtrip_fails_any_header\<close> the data never comes back for any header size of
  at least one byte).
\<close>

theorem set_then_get_roundtrip:
  "(length tbl = STORAGE_MAX_ENTRIES \<and> length d = unat n
      \<and> fst (storage_set tbl u n (Some d)) = PSA_SUCCESS
    \<longrightarrow> storage_get (snd (storage_set tbl u n (Some d))) u 0 n (Some out)
          = (PSA_SUCCESS, Some (d @ drop (length d) out)))
   \<and> (zms_read_after_write api
      \<and> fst (storage_set_zfs api fs u n (Some d)) = PSA_SUCCESS
      \<and> length d = unat n \<and> length d \<le> BUF_SIZE
      \<and> h + unat off + unat len \<le> length d
    \<longrightarrow> storage_get_zfs h api stack (snd (storage_set_zfs api fs u n (Some d))) u off len
            (Some out)
          = Returns (PSA_SUCCESS,
              Some (take (unat len) (drop (h + unat off) d) @ drop (unat len) out)))"
proof (intro conjI impI)
  assume "length tbl = STORAGE_MAX_ENTRIES \<and> length d = unat n
      \<and> fst (storage_set tbl u n (Some d)) = PSA_SUCCESS"
  then show "storage_get (snd (storage_set tbl u n (Some d))) u 0 n (Some out)
          = (PSA_SUCCESS, Some (d @ drop (length d) out))"
    by (simp add: set_then_get_whole)
next
  assume a: "zms_read_after_write api
      \<and> fst (storage_set_zfs api fs u n (Some d)) = PSA_SUCCESS
      \<and> length d = unat n \<and> length d \<le> BUF_SIZE
      \<and> h + unat off + unat len \<le> length d"
  show "storage_get_zfs h api stack (snd (storage_set_zfs api fs u n (Some d))) u off len
            (Some out)
          = Returns (PSA_SUCCESS,
              Some (take (unat len) (drop (h + unat off) d) @ drop (unat len) out))"
    by (rule set_zfs_then_get_window
        [OF a [THEN conjunct1] a [THEN conjunct2, THEN conjunct1]
            a [THEN conjunct2, THEN conjunct2, THEN conjunct1]
            a [THEN conjunct2, THEN conjunct2, THEN conjunct2, THEN conjunct1]
            a [THEN conjunct2, THEN conjunct2, THEN conjunct2, THEN conjunct2]])
qed

theorem zfs_roundtrip_counterexample:
  "fst (storage_set_zfs (zms_ref 1024) Map.empty 0xA 10 (Some digits)) = PSA_SUCCESS
   \<and> storage_get_zfs 8 (zms_ref 1024) (replicate 128 0)
        (snd (storage_set_zfs (zms_ref 1024) Map.empty 0xA 10 (Some digits)))
        0xA 0 10 (Some [0, 0, 0, 0, 0, 0, 0, 0, 0, 0])
     = Returns (PSA_SUCCESS, Some [0x38, 0x39, 0, 0, 0, 0, 0, 0, 0, 0])"
  unfolding set_zfs_digits fst_conv snd_conv
  by (simp add: storage_get_zfs_def zms_ref_def get_read_indices_def list_ex_upt_ge
      BUF_SIZE_def memcpy_def digits_def replicate_8)

theorem set_then_get_roundtrip_witness:
  "storage_get (snd (storage_set (storage_init storage_table_zero) 0xA 10 (Some digits)))
      0xA 0 10 (Some [0, 0, 0, 0, 0, 0, 0, 0, 0, 0])
     = (PSA_SUCCESS, Some digits)
   \<and> zms_read_after_write (zms_ref 1024)
   \<and> storage_get_zfs 8 (zms_ref 1024) (replicate 128 0)
        (snd (storage_set_zfs (zms_ref 1024) Map.empty 0xA 10 (Some digits)))
        0xA 0 2 (Some [0, 0])
     = Returns (PSA_SUCCESS, Some [0x38, 0x39])"
proof -
  let ?out = "[0, 0, 0, 0, 0, 0, 0, 0, 0, 0] :: byte list"
  have a1: "length (storage_init storage_table_zero) = STORAGE_MAX_ENTRIES
      \<and> length digits = unat (10 :: 32 word)
      \<and> fst (storage_set (storage_init storage_table_zero) 0xA 10 (Some digits)) = PSA_SUCCESS"
    by (simp add: length_storage_init set_digits) (simp add: digits_def)
  have raw: "zms_read_after_write (zms_ref 1024)"
    by (rule zms_ref_read_after_write) simp
  have a2: "fst (storage_set_zfs (zms_ref 1024) Map.empty 0xA 10 (Some digits)) = PSA_SUCCESS
      \<and> length digits = unat (10 :: 32 word) \<and> length digits \<le> BUF_SIZE
      \<and> 8 + unat (0 :: 32 word) + unat (2 :: 32 word) \<le> length digits"
    unfolding set_zfs_digits fst_conv snd_conv
    by (simp add: BUF_SIZE_def digits_def)
  have b1: "storage_get (snd (storage_set (storage_init storage_table_zero) 0xA 10 (Some digits)))
      0xA 0 10 (Some ?out) = (PSA_SUCCESS, Some (digits @ drop (length digits) ?out))"
    by (rule set_then_get_roundtrip
        [of "storage_init storage_table_zero" digits 10 "0xA" ?out "zms_ref 1024" Map.empty
            8 0 2 "replicate 128 0",
         THEN conjunct1, rule_format, OF a1])
  have b2: "storage_get_zfs 8 (zms_ref 1024) (replicate 128 0)
        (snd (storage_set_zfs (zms_ref 1024) Map.empty 0xA 10 (Some digits)))
        0xA 0 2 (Some [0, 0])
     = Returns (PSA_SUCCESS,
         Some (take (unat (2 :: 32 word)) (drop (8 + unat (0 :: 32 word)) digits)
               @ drop (unat (2 :: 32 word)) [0, 0]))"
    by (rule set_then_get_roundtrip
        [of _ digits 10 "0xA" "[0, 0]" "zms_ref 1024" Map.empty 8 0 2 "replicate 128 0",
         THEN conjunct2, rule_format, OF conjI [OF raw a2]])
  have c1: "storage_get (snd (storage_set (storage_init storage_table_zero) 0xA 10 (Some digits)))
      0xA 0 10 (Some ?out) = (PSA_SUCCESS, Some digits)"
    unfolding b1 by (simp add: digits_def)
  have c2: "storage_get_zfs 8 (zms_ref 1024) (replicate 128 0)
        (snd (storage_set_zfs (zms_ref 1024) Map.empty 0xA 10 (Some digits)))
        0xA 0 2 (Some [0, 0]) = Returns (PSA_SUCCESS, Some [0x38, 0x39])"
    unfolding b2 by (simp add: digits_def)
  show ?thesis by (intro conjI c1 raw c2)
qed

end
